theory Spec2Isabelle
  imports Main
begin

section \<open>Data model (src/lib/accounts/types.ts)\<close>

text \<open>
  Numbers of the source are epoch milliseconds, counters and list positions; they are
  modelled as \<open>int\<close>, so fractions, \<open>NaN\<close> and the infinities of IEEE arithmetic
  are not values of the model. An optional field \<open>f?: T\<close> is a \<open>T option\<close>, with
  \<open>None\<close> for \<open>undefined\<close>. JavaScript's truthiness is written out where the
  source tests a value: \<open>0\<close>, the empty string, \<open>false\<close> and \<open>undefined\<close> are
  falsy.

  The functions are \<open>async\<close>; the model runs one call at a time, so nothing
  interleaves between the statements of a call. What a call reads from its environment
  (the clock, the process id, the snapshot file, the refresh collaborator, the
  transport call, \<open>decodeJWT\<close>) is an argument of the modelled function. Writing the
  snapshot file (\<open>saveToDisk\<close> of the manager) leaves the manager as it is. The write
  at the end of \<open>updateAccountTokens\<close> stands in the \<open>try\<close> block of
  \<open>ensureValidToken\<close>, whose \<open>catch\<close> turns an exception of the write into a failed
  refresh: whether that write throws is an argument of \<open>ensureValidToken\<close>. The other
  writes have no handler in these functions and are taken to succeed.

  Account objects are shared by reference between the manager's array and its callers
  (a caller may hold an account that has been spliced out of the array), so the model
  keeps an explicit store \<open>objs\<close> from references to objects, and the array
  \<open>accounts\<close> holds references.
\<close>

type_synonym ref = nat

record ManagedAccount =
  index :: int
  email :: "string option"
  userId :: "string option"
  accountId :: "string option"
  planType :: "string option"
  addedAt :: int
  lastUsed :: "int option"
  refreshToken :: string
  access :: "string option"
  expires :: "int option"
  rateLimitResets :: "string \<Rightarrow> int option"
  globalRateLimitReset :: "int option"
  consecutiveFailures :: int
  isRefreshing :: "bool option"
  lastRefreshError :: "string option"

datatype strategy = Sticky | RoundRobin | Hybrid

record MultiAccountConfig =
  accountSelectionStrategy :: strategy
  debug :: bool
  quietMode :: bool
  pidOffsetEnabled :: bool
  proactiveRefreshThresholdMs :: int
  removeOnInvalidGrant :: bool
  perModelRateLimits :: bool

definition DEFAULT_MULTI_ACCOUNT_CONFIG :: MultiAccountConfig where
  "DEFAULT_MULTI_ACCOUNT_CONFIG =
     \<lparr> accountSelectionStrategy = Sticky, debug = False, quietMode = False,
       pidOffsetEnabled = False, proactiveRefreshThresholdMs = 5 * 60 * 1000,
       removeOnInvalidGrant = True, perModelRateLimits = True \<rparr>"

text \<open>The fields of class \<open>AccountManager\<close>, with the object store and its allocation
  pointer \<open>fresh\<close> (every reference below \<open>fresh\<close> has been allocated).\<close>

record AccountManager =
  objs :: "ref \<Rightarrow> ManagedAccount"
  fresh :: ref
  accounts :: "ref list"
  activeIndex :: int
  roundRobinCursor :: int
  strategyInitialized :: bool
  config :: MultiAccountConfig

text \<open>The exceptions that leave the modelled functions: reading a field of
  \<open>undefined\<close>, \<open>JSON.parse\<close> on a request body that is not JSON, and a transport
  call that rejects.\<close>

datatype error = TypeError | SyntaxError | NetworkError

subsection \<open>JavaScript operators used by the source\<close>

definition truthy_num :: "int option \<Rightarrow> bool" where
  "truthy_num v = (case v of None \<Rightarrow> False | Some n \<Rightarrow> n \<noteq> 0)"

definition truthy_str :: "string option \<Rightarrow> bool" where
  "truthy_str v = (case v of None \<Rightarrow> False | Some s \<Rightarrow> s \<noteq> [])"

definition truthy_bool :: "bool option \<Rightarrow> bool" where
  "truthy_bool v = (case v of None \<Rightarrow> False | Some b \<Rightarrow> b)"

text \<open>\<open>v || 0\<close> on an optional number.\<close>

definition or0 :: "int option \<Rightarrow> int" where
  "or0 v = (case v of None \<Rightarrow> 0 | Some n \<Rightarrow> n)"

text \<open>\<open>v && v > now\<close> on an optional number.\<close>

definition and_gt :: "int option \<Rightarrow> int \<Rightarrow> bool" where
  "and_gt v now = (case v of None \<Rightarrow> False | Some n \<Rightarrow> n \<noteq> 0 \<and> n > now)"

text \<open>\<open>a % b\<close> on integers: the remainder takes the sign of the dividend.\<close>

definition js_rem :: "int \<Rightarrow> int \<Rightarrow> int" where
  "js_rem a b = (if a < 0 then - ((- a) mod \<bar>b\<bar>) else a mod \<bar>b\<bar>)"

text \<open>\<open>xs[i]\<close>: \<open>undefined\<close> (here \<open>None\<close>) outside the array.\<close>

definition at_index :: "'a list \<Rightarrow> int \<Rightarrow> 'a option" where
  "at_index xs i = (if 0 \<le> i \<and> i < int (length xs) then Some (xs ! nat i) else None)"

section \<open>Account selection (src/lib/accounts/manager.ts)\<close>

definition normalizeIndex :: "AccountManager \<Rightarrow> int \<Rightarrow> int" where
  "normalizeIndex s i =
     (if length (accounts s) = 0 then 0
      else if i < 0 \<or> i \<ge> int (length (accounts s)) then 0
      else i)"

text \<open>\<open>initializeStrategyState\<close>; \<open>pid\<close> is \<open>process.pid\<close>. The \<open>saveToDisk\<close> of
  the hybrid branch does not change the manager.\<close>

definition initializeStrategyState :: "int \<Rightarrow> AccountManager \<Rightarrow> AccountManager" where
  "initializeStrategyState pid s =
     (if strategyInitialized s then s
      else if length (accounts s) = 0 then
        s\<lparr>activeIndex := 0, roundRobinCursor := 0, strategyInitialized := True\<rparr>
      else
        let n = int (length (accounts s));
            a1 = normalizeIndex s (activeIndex s);
            a2 = (if accountSelectionStrategy (config s) = Hybrid \<and> length (accounts s) > 1
                  then js_rem (a1 + 1) n else a1);
            a3 = (if pidOffsetEnabled (config s) \<and> length (accounts s) > 1
                  then js_rem (a2 + js_rem \<bar>pid\<bar> n) n else a2)
        in s\<lparr>activeIndex := a3, roundRobinCursor := a3, strategyInitialized := True\<rparr>)"

definition isAccountAvailable ::
  "MultiAccountConfig \<Rightarrow> ManagedAccount \<Rightarrow> string option \<Rightarrow> int \<Rightarrow> bool" where
  "isAccountAvailable cfg account model now =
     (if consecutiveFailures account \<ge> 3 then False
      else if and_gt (globalRateLimitReset account) now then False
      else if truthy_str model \<and> perModelRateLimits cfg
              \<and> and_gt (rateLimitResets account (the model)) now then False
      else True)"

text \<open>The reset time \<open>getLeastRateLimitedAccount\<close> compares.\<close>

definition resetTimeOf :: "MultiAccountConfig \<Rightarrow> string option \<Rightarrow> ManagedAccount \<Rightarrow> int" where
  "resetTimeOf cfg model account =
     (let resetTime = or0 (globalRateLimitReset account) in
      if truthy_str model \<and> perModelRateLimits cfg
      then max resetTime (or0 (rateLimitResets account (the model)))
      else resetTime)"

text \<open>The \<open>for\<close> loop of \<open>getLeastRateLimitedAccount\<close>. \<open>earliestReset\<close> starts at
  \<open>Infinity\<close>, which is \<open>None\<close> here: every integer is below it.\<close>

fun leastLoop ::
  "(ref \<Rightarrow> ManagedAccount) \<Rightarrow> MultiAccountConfig \<Rightarrow> string option \<Rightarrow> ref list
     \<Rightarrow> ref option \<Rightarrow> int option \<Rightarrow> ref option" where
  "leastLoop h cfg model [] bestAccount earliestReset = bestAccount"
| "leastLoop h cfg model (r # rs) bestAccount earliestReset =
     (if consecutiveFailures (h r) \<ge> 3 then leastLoop h cfg model rs bestAccount earliestReset
      else
        let resetTime = resetTimeOf cfg model (h r) in
        if (case earliestReset of None \<Rightarrow> True | Some e \<Rightarrow> resetTime < e)
        then leastLoop h cfg model rs (Some r) (Some resetTime)
        else leastLoop h cfg model rs bestAccount earliestReset)"

definition getLeastRateLimitedAccount :: "AccountManager \<Rightarrow> string option \<Rightarrow> ref option" where
  "getLeastRateLimitedAccount s model =
     (if length (accounts s) = 0 then None
      else leastLoop (objs s) (config s) model (accounts s) None None)"

text \<open>The \<open>while\<close> loop of \<open>getNextAvailableAccount\<close>. It returns \<open>None\<close> when the
  loop ends without a hit; a hit updates the manager and returns the account; reading a
  field of \<open>accounts[index]\<close> when that is \<open>undefined\<close> throws.\<close>

function scanLoop ::
  "AccountManager \<Rightarrow> string option \<Rightarrow> int \<Rightarrow> int \<Rightarrow> nat
     \<Rightarrow> (AccountManager \<times> (error + ref)) option" where
  "scanLoop s model now startIndex attempts =
     (if attempts < length (accounts s) then
        let idx = js_rem (startIndex + int attempts) (int (length (accounts s))) in
        (case at_index (accounts s) idx of
           None \<Rightarrow> Some (s, Inl TypeError)
         | Some account \<Rightarrow>
             if isAccountAvailable (config s) (objs s account) model now then
               Some (s\<lparr> activeIndex := idx,
                        roundRobinCursor :=
                          (if accountSelectionStrategy (config s) = RoundRobin
                           then js_rem (idx + 1) (int (length (accounts s)))
                           else roundRobinCursor s),
                        objs := (objs s)(account := (objs s account)\<lparr>lastUsed := Some now\<rparr>) \<rparr>,
                     Inr account)
             else scanLoop s model now startIndex (Suc attempts))
      else None)"
  by pat_completeness auto
termination
  by (relation "measure (\<lambda>(s, model, now, startIndex, attempts). length (accounts s) - attempts)")
     auto

declare scanLoop.simps [simp del]

definition getNextAvailableAccount ::
  "int \<Rightarrow> AccountManager \<Rightarrow> string option \<Rightarrow> int
     \<Rightarrow> AccountManager \<times> (error + ref option)" where
  "getNextAvailableAccount pid s0 model now =
     (if length (accounts s0) = 0 then (s0, Inr None)
      else
        let s = initializeStrategyState pid s0;
            startIndex = (if accountSelectionStrategy (config s) = RoundRobin
                          then roundRobinCursor s else activeIndex s)
        in case scanLoop s model now startIndex 0 of
             Some (s', Inl e) \<Rightarrow> (s', Inl e)
           | Some (s', Inr account) \<Rightarrow> (s', Inr (Some account))
           | None \<Rightarrow>
               (case getLeastRateLimitedAccount s model of
                  None \<Rightarrow> (s, Inr None)
                | Some fallback \<Rightarrow>
                    (s\<lparr> activeIndex := index (objs s fallback),
                         roundRobinCursor :=
                           (if accountSelectionStrategy (config s) = RoundRobin
                            then js_rem (index (objs s fallback) + 1) (int (length (accounts s)))
                            else roundRobinCursor s),
                         objs := (objs s)(fallback := (objs s fallback)\<lparr>lastUsed := Some now\<rparr>) \<rparr>,
                     Inr (Some fallback))))"


text \<open>The index the scan of \<open>getNextAvailableAccount\<close> starts from, the \<open>k\<close>-th
  position it visits, and the manager after a hit at position \<open>idx\<close>.\<close>

definition scanStart :: "int \<Rightarrow> AccountManager \<Rightarrow> int" where
  "scanStart pid s =
     (let s1 = initializeStrategyState pid s in
      if accountSelectionStrategy (config s1) = RoundRobin
      then roundRobinCursor s1 else activeIndex s1)"

definition scanPos :: "AccountManager \<Rightarrow> int \<Rightarrow> nat \<Rightarrow> nat" where
  "scanPos s startIndex k = nat ((startIndex + int k) mod int (length (accounts s)))"

definition availAt :: "AccountManager \<Rightarrow> string option \<Rightarrow> int \<Rightarrow> int \<Rightarrow> nat \<Rightarrow> bool" where
  "availAt s model now startIndex k =
     isAccountAvailable (config s) (objs s (accounts s ! scanPos s startIndex k)) model now"

definition hit :: "AccountManager \<Rightarrow> int \<Rightarrow> int \<Rightarrow> AccountManager" where
  "hit s now idx =
     s\<lparr> activeIndex := idx,
        roundRobinCursor :=
          (if accountSelectionStrategy (config s) = RoundRobin
           then js_rem (idx + 1) (int (length (accounts s)))
           else roundRobinCursor s),
        objs := (objs s)(accounts s ! nat idx :=
                  (objs s (accounts s ! nat idx))\<lparr>lastUsed := Some now\<rparr>) \<rparr>"

text \<open>Availability in the words of the specification: fewer than three consecutive
  failures, no global reset strictly in the future and, when per-model tracking is on
  and a model is given, no reset of that model strictly in the future. A model is given
  when the argument is a non-empty string (the source tests \<open>model && ...\<close>).\<close>

definition strictlyFuture :: "int option \<Rightarrow> int \<Rightarrow> bool" where
  "strictlyFuture v now = (case v of None \<Rightarrow> False | Some t \<Rightarrow> t > now)"

definition modelGiven :: "string option \<Rightarrow> bool" where
  "modelGiven model = (model \<noteq> None \<and> model \<noteq> Some [])"

definition available_spec ::
  "MultiAccountConfig \<Rightarrow> ManagedAccount \<Rightarrow> string option \<Rightarrow> int \<Rightarrow> bool" where
  "available_spec cfg account model now =
     (consecutiveFailures account < 3
      \<and> \<not> strictlyFuture (globalRateLimitReset account) now
      \<and> \<not> (perModelRateLimits cfg \<and> modelGiven model
            \<and> strictlyFuture (rateLimitResets account (the model)) now))"

section \<open>Account store (src/lib/accounts/manager.ts)\<close>

text \<open>\<open>decodeJWT\<close> lives outside these sources; it is a parameter \<open>dec\<close> of the
  operations that call it, returning the claims the manager reads or \<open>None\<close> when the
  token does not decode.\<close>

record AuthClaims =
  chatgpt_account_id :: "string option"
  chatgpt_user_id :: "string option"
  chatgpt_plan_type :: "string option"

record DecodedJWT =
  authClaims :: "AuthClaims option"
  profileEmail :: "string option"

type_synonym decoder = "string \<Rightarrow> DecodedJWT option"

text \<open>\<open>Array.prototype.findIndex\<close>, with \<open>None\<close> for \<open>-1\<close>.\<close>

fun findIndex :: "('a \<Rightarrow> bool) \<Rightarrow> 'a list \<Rightarrow> nat option" where
  "findIndex p [] = None"
| "findIndex p (x # xs) =
     (if p x then Some 0 else (case findIndex p xs of None \<Rightarrow> None | Some i \<Rightarrow> Some (Suc i)))"

text \<open>\<open>s.includes(t)\<close>.\<close>

fun str_includes :: "string \<Rightarrow> string \<Rightarrow> bool" where
  "str_includes [] t = (t = [])"
| "str_includes (c # cs) t = (take (length t) (c # cs) = t \<or> str_includes cs t)"

text \<open>The object literal \<open>addAccount\<close> pushes.\<close>

definition newAccount ::
  "int \<Rightarrow> string option \<Rightarrow> string option \<Rightarrow> string option \<Rightarrow> string option \<Rightarrow> int
     \<Rightarrow> string \<Rightarrow> string option \<Rightarrow> int option \<Rightarrow> ManagedAccount" where
  "newAccount idx extractedEmail uid plan aid now refreshTok accessToken expiresAt =
     \<lparr> index = idx, email = extractedEmail, userId = uid, accountId = aid, planType = plan,
       addedAt = now, lastUsed = None, refreshToken = refreshTok, access = accessToken,
       expires = expiresAt, rateLimitResets = (\<lambda>_. None), globalRateLimitReset = None,
       consecutiveFailures = 0, isRefreshing = None, lastRefreshError = None \<rparr>"

text \<open>The constructor: an empty pool. No object is allocated yet; the store is filled
  with a placeholder.\<close>

definition newAccountManager :: "MultiAccountConfig \<Rightarrow> AccountManager" where
  "newAccountManager cfg =
     \<lparr> objs = (\<lambda>_. newAccount 0 None None None None 0 [] None None), fresh = 0,
       accounts = [], activeIndex = 0, roundRobinCursor = 0, strategyInitialized = False,
       config = cfg \<rparr>"




text \<open>\<open>this.accounts.forEach((a, i) => (a.index = i))\<close>, from position \<open>i\<close> on.\<close>

fun reindex :: "(ref \<Rightarrow> ManagedAccount) \<Rightarrow> ref list \<Rightarrow> nat \<Rightarrow> (ref \<Rightarrow> ManagedAccount)" where
  "reindex h [] i = h"
| "reindex h (r # rs) i = reindex (h(r := (h r)\<lparr>index := int i\<rparr>)) rs (Suc i)"

definition removeAccount :: "AccountManager \<Rightarrow> ref \<Rightarrow> AccountManager" where
  "removeAccount s account =
     (case findIndex (\<lambda>r. index (objs s r) = index (objs s account)) (accounts s) of
        None \<Rightarrow> s
      | Some i \<Rightarrow>
          let spliced = take i (accounts s) @ drop (Suc i) (accounts s);
              a = (if activeIndex s \<ge> int (length spliced)
                   then max 0 (int (length spliced) - 1) else activeIndex s)
          in s\<lparr> objs := reindex (objs s) spliced 0, accounts := spliced,
                 activeIndex := a, roundRobinCursor := a, strategyInitialized := False \<rparr>)"

definition markRateLimited ::
  "AccountManager \<Rightarrow> ref \<Rightarrow> int \<Rightarrow> string option \<Rightarrow> int \<Rightarrow> AccountManager" where
  "markRateLimited s account retryAfterMs model now =
     (let resetTime = now + retryAfterMs; a = objs s account in
      if truthy_str model \<and> perModelRateLimits (config s)
      then s\<lparr>objs := (objs s)(account :=
               a\<lparr>rateLimitResets := (rateLimitResets a)(the model := Some resetTime)\<rparr>)\<rparr>
      else s\<lparr>objs := (objs s)(account := a\<lparr>globalRateLimitReset := Some resetTime\<rparr>)\<rparr>)"

definition markRefreshFailed :: "AccountManager \<Rightarrow> ref \<Rightarrow> string \<Rightarrow> AccountManager" where
  "markRefreshFailed s account err =
     (let a = objs s account;
          s1 = s\<lparr>objs := (objs s)(account :=
                 a\<lparr> consecutiveFailures := consecutiveFailures a + 1,
                    lastRefreshError := Some err,
                    isRefreshing := Some False \<rparr>)\<rparr>
      in if removeOnInvalidGrant (config s) \<and> str_includes err ''invalid_grant''
         then removeAccount s1 account else s1)"

text \<open>The assignments of \<open>updateAccountTokens\<close>; the outcome of the write that
  follows them is an argument of its caller \<open>ensureValidToken\<close>.\<close>

definition updateAccountTokens ::
  "decoder \<Rightarrow> AccountManager \<Rightarrow> ref \<Rightarrow> string \<Rightarrow> string \<Rightarrow> int \<Rightarrow> AccountManager" where
  "updateAccountTokens dec s account accessToken refreshTok expiresAt =
     (let a = (objs s account)\<lparr> access := Some accessToken, refreshToken := refreshTok,
                 expires := Some expiresAt, consecutiveFailures := 0,
                 isRefreshing := Some False, lastRefreshError := None \<rparr>;
          claims = (case dec accessToken of None \<Rightarrow> None | Some d \<Rightarrow> authClaims d);
          a' = (case claims of
                  None \<Rightarrow> a
                | Some c \<Rightarrow>
                    a\<lparr> accountId := (if truthy_str (chatgpt_account_id c)
                                      then chatgpt_account_id c else accountId a),
                       userId := (if truthy_str (chatgpt_user_id c)
                                   then chatgpt_user_id c else userId a),
                       planType := (if truthy_str (chatgpt_plan_type c)
                                     then chatgpt_plan_type c else planType a) \<rparr>)
      in s\<lparr>objs := (objs s)(account := a')\<rparr>)"

text \<open>The credential refresh collaborator: what \<open>refreshAccessToken\<close> answers for a
  refresh token, or that it threw (with \<open>String(err)\<close>).\<close>

datatype refresh_result =
  RefreshSuccess string string int | RefreshFailed | RefreshThrew string

type_synonym refresher = "string \<Rightarrow> refresh_result"

text \<open>What the \<open>saveToDisk\<close> that ends \<open>updateAccountTokens\<close> does: it writes the
  file, or it throws (\<open>mkdirSync\<close> or \<open>writeFileSync\<close> fails; with \<open>String(err)\<close>).
  \<open>saveToDisk\<close> has no handler of its own, so the exception leaves
  \<open>updateAccountTokens\<close> after its assignments.\<close>

datatype write_result = Written | WriteThrew string

text \<open>\<open>ensureValidToken\<close> returns the manager, its boolean and the refresh tokens it
  sent to the collaborator (empty when no refresh was performed). Its \<open>try\<close> block
  holds the call of the collaborator and the call of \<open>updateAccountTokens\<close>; the
  \<open>catch\<close> receives an exception of either and calls \<open>markRefreshFailed\<close> with
  \<open>String(err)\<close>.\<close>

definition ensureValidToken ::
  "decoder \<Rightarrow> refresher \<Rightarrow> write_result \<Rightarrow> AccountManager \<Rightarrow> ref \<Rightarrow> int
     \<Rightarrow> AccountManager \<times> bool \<times> string list" where
  "ensureValidToken dec refreshAccessToken saved s account now =
     (let a = objs s account in
      if \<not> truthy_num (expires a)
         \<or> the (expires a) > now + proactiveRefreshThresholdMs (config s)
      then (s, True, [])
      else if truthy_bool (isRefreshing a) then (s, truthy_str (access a), [])
      else
        let s1 = s\<lparr>objs := (objs s)(account := a\<lparr>isRefreshing := Some True\<rparr>)\<rparr> in
        case refreshAccessToken (refreshToken a) of
          RefreshSuccess acc rfr ex \<Rightarrow>
            (case saved of
               Written \<Rightarrow>
                 (updateAccountTokens dec s1 account acc rfr ex, True, [refreshToken a])
             | WriteThrew err \<Rightarrow>
                 (markRefreshFailed (updateAccountTokens dec s1 account acc rfr ex) account err,
                  False, [refreshToken a]))
        | RefreshFailed \<Rightarrow>
            (markRefreshFailed s1 account ''Token refresh failed'', False, [refreshToken a])
        | RefreshThrew err \<Rightarrow>
            (markRefreshFailed s1 account err, False, [refreshToken a]))"

text \<open>The snapshot file as \<open>loadFromDisk\<close> sees it: absent; unreadable or not JSON
  (\<open>readFileSync\<close> or \<open>JSON.parse\<close> throws); the JSON value \<open>null\<close> (reading
  \<open>data.version\<close> throws); or another JSON value, of which the source inspects whether
  \<open>version === 1\<close>, the array under \<open>accounts\<close> (if it is one) and
  \<open>activeAccountIndex\<close>.\<close>

datatype accounts_file =
  NoFile
  | Unparsable
  | JsonNull
  | JsonValue bool "ManagedAccount list option" "int option"

text \<open>Objects parsed from the file are new objects: they are allocated from \<open>fresh\<close>
  on.\<close>

fun allocAll :: "(ref \<Rightarrow> ManagedAccount) \<Rightarrow> ref \<Rightarrow> ManagedAccount list \<Rightarrow> (ref \<Rightarrow> ManagedAccount)" where
  "allocAll h p [] = h"
| "allocAll h p (a # as) = allocAll (h(p := a)) (Suc p) as"

definition resetPool :: "AccountManager \<Rightarrow> AccountManager" where
  "resetPool s =
     s\<lparr>accounts := [], activeIndex := 0, roundRobinCursor := 0, strategyInitialized := False\<rparr>"

definition loadFromDisk :: "AccountManager \<Rightarrow> accounts_file \<Rightarrow> AccountManager" where
  "loadFromDisk s file =
     (case file of
        NoFile \<Rightarrow> s
      | Unparsable \<Rightarrow> resetPool s
      | JsonNull \<Rightarrow> resetPool s
      | JsonValue versionIs1 accountsArray activeAccountIndex \<Rightarrow>
          (case accountsArray of
             Some accs \<Rightarrow>
               if versionIs1 then
                 s\<lparr> objs := allocAll (objs s) (fresh s) accs,
                    fresh := fresh s + length accs,
                    accounts := [fresh s ..< fresh s + length accs],
                    activeIndex := or0 activeAccountIndex,
                    strategyInitialized := False \<rparr>
               else s
           | None \<Rightarrow> s))"


section \<open>Request orchestrator (executeRequest and the fetch wrapper of the plugin)\<close>

text \<open>An upstream response, as far as the orchestrator inspects it: the status; the
  \<open>Retry-After\<close> header as \<open>parseInt\<close> reads it (\<open>None\<close>: no header); the reset
  time of the body, \<open>error.details.resets_at || resets_at\<close>, as the epoch
  milliseconds \<open>new Date(..).getTime()\<close> gives (\<open>None\<close>: the body is not JSON or has
  none); and whether the body matches the usage-limit pattern of
  \<open>mapUsageLimit404\<close>.\<close>

record Response =
  status :: int
  retryAfter :: "int option"
  resetsAt :: "int option"
  usageLimitText :: bool

datatype fetch_result = Fetched Response | FetchThrew

text \<open>\<open>init.body\<close>: absent, not JSON, or JSON with its \<open>stream === true\<close> and its
  \<open>model\<close>.\<close>

datatype request_body = NoBody | InvalidJson | JsonBody bool "string option"

text \<open>What the environment answers during one invocation of \<open>executeRequest\<close>: the
  clock readings (\<open>Date.now()\<close> in \<open>ensureValidToken\<close>, in the 429 branch, in
  \<open>markRateLimited\<close> and in the reselection), the refresh collaborator, the write
  of the snapshot after a successful refresh and the transport call.\<close>

record attempt_io =
  clockToken :: int
  refreshReply :: refresher
  writeReply :: write_result
  upstream :: fetch_result
  clockBody :: int
  clockMark :: int
  clockSelect :: int

datatype final = Synthetic int string | Upstream Response

datatype action = Return final | Recurse ref nat | Throw error

text \<open>Modelled from the spec: the constants of \<open>lib/constants.js\<close>, which is not among
  the sources: the statuses 401, 404 and 429 and the text of the missing-account-id
  error.\<close>

definition UNAUTHORIZED :: int where "UNAUTHORIZED = 401"
definition NOT_FOUND :: int where "NOT_FOUND = 404"
definition TOO_MANY_REQUESTS :: int where "TOO_MANY_REQUESTS = 429"
definition NO_ACCOUNT_ID :: string where "NO_ACCOUNT_ID = ''no account id''"

definition ok :: "Response \<Rightarrow> bool" where
  "ok r = (200 \<le> status r \<and> status r \<le> 299)"

text \<open>\<open>handleErrorResponse\<close> with \<open>mapUsageLimit404\<close> (src/lib/request/fetch-helpers.ts).\<close>

definition handleErrorResponse :: "Response \<Rightarrow> Response" where
  "handleErrorResponse r =
     (if status r = NOT_FOUND \<and> usageLimitText r then r\<lparr>status := TOO_MANY_REQUESTS\<rparr> else r)"

text \<open>The last two statements of \<open>executeRequest\<close>; \<open>handleSuccessResponse\<close> only
  rewrites the body and the content type, which the model does not hold.\<close>

definition finish :: "Response \<Rightarrow> action" where
  "finish r = Return (Upstream (if \<not> ok r then handleErrorResponse r else r))"

definition extractModelFromBody :: "request_body \<Rightarrow> string option" where
  "extractModelFromBody body = (case body of JsonBody _ m \<Rightarrow> m | _ \<Rightarrow> None)"

text \<open>\<open>nextAccount && nextAccount.index !== account.index\<close>.\<close>

definition differs :: "AccountManager \<Rightarrow> ref option \<Rightarrow> ref \<Rightarrow> bool" where
  "differs s nextAccount account =
     (case nextAccount of None \<Rightarrow> False
      | Some n \<Rightarrow> index (objs s n) \<noteq> index (objs s account))"

definition retryAfterMsOf :: "attempt_io \<Rightarrow> Response \<Rightarrow> int" where
  "retryAfterMsOf io response =
     (case retryAfter response of
        Some seconds \<Rightarrow> seconds * 1000
      | None \<Rightarrow> if truthy_num (resetsAt response)
                then the (resetsAt response) - clockBody io else 60000)"

text \<open>The part of \<open>executeRequest\<close> after the transport call has answered. In the
  source the 429 branch falls through to the test for 401, which a 429 fails, and then
  to the last two statements.\<close>

definition onResponse ::
  "int \<Rightarrow> attempt_io \<Rightarrow> AccountManager \<Rightarrow> ref \<Rightarrow> nat \<Rightarrow> string option \<Rightarrow> Response
     \<Rightarrow> AccountManager \<times> action" where
  "onResponse pid io s account retryCount model response =
     (if status response = TOO_MANY_REQUESTS then
        let s1 = markRateLimited s account (retryAfterMsOf io response) model (clockMark io) in
        if int retryCount < int (length (accounts s1)) - 1 then
          (case getNextAvailableAccount pid s1 model (clockSelect io) of
             (s2, Inl e) \<Rightarrow> (s2, Throw e)
           | (s2, Inr nextAccount) \<Rightarrow>
               if differs s2 nextAccount account
               then (s2, Recurse (the nextAccount) (retryCount + 1))
               else (s2, finish response))
        else (s1, finish response)
      else if status response = UNAUTHORIZED \<and> retryCount < 1 then
        let s1 = markRefreshFailed s account ''401 Unauthorized'' in
        (case getNextAvailableAccount pid s1 model (clockSelect io) of
           (s2, Inl e) \<Rightarrow> (s2, Throw e)
         | (s2, Inr nextAccount) \<Rightarrow>
             if differs s2 nextAccount account
             then (s2, Recurse (the nextAccount) (retryCount + 1))
             else (s2, finish response))
      else (s, finish response))"

text \<open>\<open>account.accountId || decodeJWT(account.access || "")?.[JWT_CLAIM_PATH]?.chatgpt_account_id\<close>.\<close>

definition resolveAccountId :: "decoder \<Rightarrow> ManagedAccount \<Rightarrow> string option" where
  "resolveAccountId dec a =
     (if truthy_str (accountId a) then accountId a
      else (case dec (case access a of None \<Rightarrow> [] | Some t \<Rightarrow> t) of
              None \<Rightarrow> None
            | Some d \<Rightarrow> (case authClaims d of
                           None \<Rightarrow> None
                         | Some c \<Rightarrow> chatgpt_account_id c)))"

text \<open>One invocation of \<open>executeRequest\<close> up to its \<open>return\<close>, its recursive call or
  its exception; the third component counts the transport calls it issued. The toasts,
  the logging, the rewriting of the URL, the transformation of the body, the headers and
  the update of the usage tracker (whose exceptions the source catches) do not touch
  the manager and are left out.\<close>

definition executeRequest_step ::
  "decoder \<Rightarrow> int \<Rightarrow> attempt_io \<Rightarrow> request_body \<Rightarrow> AccountManager \<Rightarrow> ref \<Rightarrow> nat
     \<Rightarrow> AccountManager \<times> action \<times> nat" where
  "executeRequest_step dec pid io body s account retryCount =
     (case ensureValidToken dec (refreshReply io) (writeReply io) s account (clockToken io) of
        (s1, isTokenValid, _) \<Rightarrow>
          if \<not> isTokenValid then
            (case getNextAvailableAccount pid s1 None (clockSelect io) of
               (s2, Inl e) \<Rightarrow> (s2, Throw e, 0)
             | (s2, Inr nextAccount) \<Rightarrow>
                 if differs s2 nextAccount account
                 then (s2, Recurse (the nextAccount) retryCount, 0)
                 else (s2, Return (Synthetic UNAUTHORIZED ''All accounts failed token refresh''), 0))
          else if body = InvalidJson then (s1, Throw SyntaxError, 0)
          else
            let model = extractModelFromBody body in
            if \<not> truthy_str (resolveAccountId dec (objs s1 account))
               then (s1, Return (Synthetic UNAUTHORIZED NO_ACCOUNT_ID), 0)
               else (case upstream io of
                       FetchThrew \<Rightarrow> (s1, Throw NetworkError, 1)
                     | Fetched response \<Rightarrow>
                         (case onResponse pid io s1 account retryCount model response of
                            (s2, act) \<Rightarrow> (s2, act, 1))))"

text \<open>The recursion of \<open>executeRequest\<close>. The \<open>k\<close>-th invocation of a logical request
  meets the environment \<open>io k\<close>. The recursion has no bound of its own, so the model
  carries fuel: \<open>None\<close> says that the fuel ran out before the request returned. The
  result holds the manager, the response or exception, and the number of transport
  calls issued.\<close>

fun executeRequest ::
  "nat \<Rightarrow> decoder \<Rightarrow> int \<Rightarrow> (nat \<Rightarrow> attempt_io) \<Rightarrow> nat \<Rightarrow> request_body \<Rightarrow> AccountManager
     \<Rightarrow> ref \<Rightarrow> nat \<Rightarrow> (AccountManager \<times> (error + final) \<times> nat) option" where
  "executeRequest 0 dec pid io k body s account retryCount = None"
| "executeRequest (Suc fuel) dec pid io k body s account retryCount =
     (case executeRequest_step dec pid (io k) body s account retryCount of
        (s', Return r, n) \<Rightarrow> Some (s', Inr r, n)
      | (s', Throw e, n) \<Rightarrow> Some (s', Inl e, n)
      | (s', Recurse nextAccount retryCount', n) \<Rightarrow>
          (case executeRequest fuel dec pid io (Suc k) body s' nextAccount retryCount' of
             None \<Rightarrow> None
           | Some (s'', r, m) \<Rightarrow> Some (s'', r, n + m)))"

text \<open>The \<open>fetch\<close> the plugin hands to its host: select an account, answer 503 when
  there is none, else run \<open>executeRequest\<close> with \<open>retryCount = 0\<close>.\<close>

definition pluginFetch ::
  "nat \<Rightarrow> decoder \<Rightarrow> int \<Rightarrow> int \<Rightarrow> (nat \<Rightarrow> attempt_io) \<Rightarrow> request_body \<Rightarrow> AccountManager
     \<Rightarrow> (AccountManager \<times> (error + final) \<times> nat) option" where
  "pluginFetch fuel dec pid now io body s =
     (case getNextAvailableAccount pid s (extractModelFromBody body) now of
        (s1, Inl e) \<Rightarrow> Some (s1, Inl e, 0)
      | (s1, Inr None) \<Rightarrow> Some (s1, Inr (Synthetic 503 ''No available OpenAI accounts''), 0)
      | (s1, Inr (Some account)) \<Rightarrow> executeRequest fuel dec pid io 0 body s1 account 0)"

section \<open>Usage snapshot tracker (CodexStatusManager.saveToDisk)\<close>

record RateWindow =
  usedPercent :: int
  windowMinutes :: int
  resetAt :: int

record Credits =
  hasCredits :: bool
  unlimited :: bool
  balance :: string

record CodexRateLimitSnapshot =
  snapAccountId :: string
  snapEmail :: string
  plan :: string
  updatedAt :: int
  primary :: "RateWindow option"
  secondary :: "RateWindow option"
  credits :: "Credits option"

text \<open>A JavaScript \<open>Map\<close> with string keys: its entries in insertion order, each key
  once. \<open>set\<close> replaces the value of a key in place or appends a new entry;
  \<open>new Map(pairs)\<close> sets the pairs in order; \<open>get\<close> is \<open>map_of\<close>.\<close>

type_synonym 'v js_map = "(string \<times> 'v) list"

fun map_set :: "string \<Rightarrow> 'v \<Rightarrow> 'v js_map \<Rightarrow> 'v js_map" where
  "map_set k v [] = [(k, v)]"
| "map_set k v ((k', v') # m) = (if k' = k then (k, v) # m else (k', v') # map_set k v m)"

definition new_Map :: "(string \<times> 'v) list \<Rightarrow> 'v js_map" where
  "new_Map pairs = foldl (\<lambda>m (k, v). map_set k v m) [] pairs"

definition SNAPSHOT_RETENTION_MS :: int where
  "SNAPSHOT_RETENTION_MS = 7 * 24 * 60 * 60 * 1000"

text \<open>The snapshots file as \<open>saveToDisk\<close> re-reads it: absent, not JSON, JSON that is
  not an array, or an array of key-snapshot pairs.\<close>

datatype snapshots_file =
  SnapMissing
  | SnapUnparsable
  | SnapNotArray
  | SnapEntries "(string \<times> CodexRateLimitSnapshot) list"

text \<open>The first loop of \<open>saveToDisk\<close>, over the entries of the in-memory map.\<close>

fun mergeMemory ::
  "CodexRateLimitSnapshot js_map \<Rightarrow> CodexRateLimitSnapshot js_map
     \<Rightarrow> CodexRateLimitSnapshot js_map" where
  "mergeMemory [] diskMap = diskMap"
| "mergeMemory ((key, memoryValue) # rest) diskMap =
     mergeMemory rest
       (case map_of diskMap key of
          None \<Rightarrow> map_set key memoryValue diskMap
        | Some diskValue \<Rightarrow>
            if updatedAt memoryValue > updatedAt diskValue
            then map_set key memoryValue diskMap else diskMap)"

text \<open>The second loop: delete the entries older than the retention window.\<close>

definition pruneOld :: "int \<Rightarrow> CodexRateLimitSnapshot js_map \<Rightarrow> CodexRateLimitSnapshot js_map" where
  "pruneOld now diskMap =
     filter (\<lambda>(key, value). \<not> (now - updatedAt value > SNAPSHOT_RETENTION_MS)) diskMap"

text \<open>\<open>saveToDisk\<close> of the tracker: the new in-memory map, which is also what is
  written (the write is taken to succeed).\<close>

definition CodexStatusManager_saveToDisk ::
  "CodexRateLimitSnapshot js_map \<Rightarrow> snapshots_file \<Rightarrow> int \<Rightarrow> CodexRateLimitSnapshot js_map" where
  "CodexStatusManager_saveToDisk snapshots file now =
     (case file of
        SnapEntries diskData \<Rightarrow> pruneOld now (mergeMemory snapshots (new_Map diskData))
      | _ \<Rightarrow> snapshots)"

section \<open>Concrete pools used to instantiate the theorems\<close>

definition cfgOf :: "strategy \<Rightarrow> MultiAccountConfig" where
  "cfgOf st = DEFAULT_MULTI_ACCOUNT_CONFIG\<lparr>accountSelectionStrategy := st\<rparr>"

definition plainAccount :: "int \<Rightarrow> string \<Rightarrow> ManagedAccount" where
  "plainAccount i tok = newAccount i None None None None 0 tok None None"

text \<open>A manager that has loaded the given accounts from a version-1 snapshot.\<close>

definition poolOf :: "MultiAccountConfig \<Rightarrow> ManagedAccount list \<Rightarrow> AccountManager" where
  "poolOf cfg accs = loadFromDisk (newAccountManager cfg) (JsonValue True (Some accs) None)"

text \<open>Two accounts; the first is rate-limited for every model until time 5000.\<close>

definition limitedPool :: AccountManager where
  "limitedPool =
     poolOf (cfgOf Sticky)
       [(plainAccount 0 ''rt-1'')\<lparr>globalRateLimitReset := Some 5000\<rparr>, plainAccount 1 ''rt-2'']"

text \<open>Two accounts, both rate-limited: the first until 5000, the second until 3000.\<close>

definition exhaustedPool :: AccountManager where
  "exhaustedPool =
     poolOf (cfgOf Sticky)
       [(plainAccount 0 ''rt-1'')\<lparr>globalRateLimitReset := Some 5000\<rparr>,
        (plainAccount 1 ''rt-2'')\<lparr>globalRateLimitReset := Some 3000\<rparr>]"

text \<open>Two accounts that are rate-limited for the model \<open>gpt\<close>: the first by a reset of
  the model at 5000; the second by a global reset at 3000 and a reset of the model at
  4000.\<close>

definition perModelPool :: AccountManager where
  "perModelPool =
     poolOf (cfgOf Sticky)
       [(plainAccount 0 ''rt-1'')\<lparr>rateLimitResets := (\<lambda>_. None)(''gpt'' := Some 5000)\<rparr>,
        (plainAccount 1 ''rt-2'')\<lparr> globalRateLimitReset := Some 3000,
           rateLimitResets := (\<lambda>_. None)(''gpt'' := Some 4000) \<rparr>]"



text \<open>A decoder for tokens that carry no claims.\<close>

definition noClaims :: decoder where
  "noClaims = (\<lambda>_. None)"

text \<open>Usage snapshots that differ in their time stamp only.\<close>

definition staleSnapshot :: CodexRateLimitSnapshot where
  "staleSnapshot =
     \<lparr> snapAccountId = ''acc_123'', snapEmail = ''user@example.com'', plan = ''Plus'',
       updatedAt = 0, primary = None, secondary = None, credits = None \<rparr>"

definition snapAt :: "int \<Rightarrow> CodexRateLimitSnapshot" where
  "snapAt t = staleSnapshot\<lparr>updatedAt := t\<rparr>"

text \<open>Two accounts with an account id and no expiry; in \<open>lonelyPool\<close> the second has
  reached the failure ceiling. \<open>readyThree\<close> has three such accounts.\<close>

definition readyPool :: AccountManager where
  "readyPool =
     poolOf (cfgOf Sticky)
       [(plainAccount 0 ''rt-1'')\<lparr>accountId := Some ''acc-1''\<rparr>,
        (plainAccount 1 ''rt-2'')\<lparr>accountId := Some ''acc-2''\<rparr>]"

definition lonelyPool :: AccountManager where
  "lonelyPool =
     poolOf (cfgOf Sticky)
       [(plainAccount 0 ''rt-1'')\<lparr>accountId := Some ''acc-1''\<rparr>,
        (plainAccount 1 ''rt-2'')\<lparr>accountId := Some ''acc-2'', consecutiveFailures := 3\<rparr>]"

definition readyThree :: AccountManager where
  "readyThree =
     poolOf (cfgOf Sticky)
       [(plainAccount 0 ''rt-1'')\<lparr>accountId := Some ''acc-1''\<rparr>,
        (plainAccount 1 ''rt-2'')\<lparr>accountId := Some ''acc-2''\<rparr>,
        (plainAccount 2 ''rt-3'')\<lparr>accountId := Some ''acc-3''\<rparr>]"

text \<open>A 429 response with \<open>Retry-After: 60\<close>, and an environment that answers every
  transport call with a given response.\<close>

definition tooMany :: Response where
  "tooMany = \<lparr> status = 429, retryAfter = Some 60, resetsAt = None, usageLimitText = False \<rparr>"

definition answering :: "Response \<Rightarrow> attempt_io" where
  "answering r =
     \<lparr> clockToken = 1000, refreshReply = (\<lambda>_. RefreshFailed), writeReply = Written,
       upstream = Fetched r,
       clockBody = 1000, clockMark = 1000, clockSelect = 1000 \<rparr>"

text \<open>Two accounts under the round-robin strategy whose token has expired, which are
  marked as refreshing and hold no access token: the state a snapshot holds when it was
  written while both refreshes were in flight.\<close>

definition stuckAccount :: "int \<Rightarrow> string \<Rightarrow> ManagedAccount" where
  "stuckAccount i tok = (plainAccount i tok)\<lparr>expires := Some 1, isRefreshing := Some True\<rparr>"

definition stuckPool :: AccountManager where
  "stuckPool = poolOf (cfgOf RoundRobin) [stuckAccount 0 ''rt-1'', stuckAccount 1 ''rt-2'']"

text \<open>An environment whose clock stands at 1000, whose refresh collaborator fails and
  whose transport call rejects.\<close>

definition idle :: attempt_io where
  "idle =
     \<lparr> clockToken = 1000, refreshReply = (\<lambda>_. RefreshFailed), writeReply = Written,
       upstream = FetchThrew,
       clockBody = 1000, clockMark = 1000, clockSelect = 1000 \<rparr>"


section \<open>Predicates used to state the claims\<close>





text \<open>The cases of \<open>loadFromDisk\<close>: a parse failure (the \<open>catch\<close> block runs), and a
  missing file or a snapshot that is not a version-1 snapshot with an array of
  accounts.\<close>

definition parseFailure :: "accounts_file \<Rightarrow> bool" where
  "parseFailure file = (file = Unparsable \<or> file = JsonNull)"

definition missingOrMismatch :: "accounts_file \<Rightarrow> bool" where
  "missingOrMismatch file =
     (case file of
        NoFile \<Rightarrow> True
      | JsonValue versionIs1 accountsArray activeAccountIndex \<Rightarrow>
          \<not> versionIs1 \<or> accountsArray = None
      | _ \<Rightarrow> False)"






text \<open>The merge of the usage snapshots in the words of the specification, per key: of
  the in-memory and the on-disk entry the one with the strictly newer \<open>updatedAt\<close>, the
  disk entry otherwise; then an entry older than the retention window is dropped.\<close>

definition mergeEntry ::
  "CodexRateLimitSnapshot option \<Rightarrow> CodexRateLimitSnapshot option
     \<Rightarrow> CodexRateLimitSnapshot option" where
  "mergeEntry memory disk =
     (case memory of
        None \<Rightarrow> disk
      | Some m \<Rightarrow>
          (case disk of
             None \<Rightarrow> Some m
           | Some d \<Rightarrow> if updatedAt m > updatedAt d then Some m else Some d))"

definition keepFresh :: "int \<Rightarrow> CodexRateLimitSnapshot option \<Rightarrow> CodexRateLimitSnapshot option" where
  "keepFresh now v =
     (case v of
        None \<Rightarrow> None
      | Some x \<Rightarrow> if now - updatedAt x > SNAPSHOT_RETENTION_MS then None else Some x)"

text \<open>The combined reset time of the fallback in the words of the specification: the
  global reset or 0; when per-model tracking is on and a model is given, the larger of
  that and the reset of the model or 0.\<close>

definition combinedResetTime ::
  "MultiAccountConfig \<Rightarrow> string option \<Rightarrow> ManagedAccount \<Rightarrow> int" where
  "combinedResetTime cfg model a =
     (if perModelRateLimits cfg \<and> modelGiven model
      then max (case globalRateLimitReset a of None \<Rightarrow> 0 | Some g \<Rightarrow> g)
               (case rateLimitResets a (the model) of None \<Rightarrow> 0 | Some m \<Rightarrow> m)
      else (case globalRateLimitReset a of None \<Rightarrow> 0 | Some g \<Rightarrow> g))"

text \<open>The reselection gives no other account: \<open>null\<close>, or an account with the
  \<open>index\<close> of the current one.\<close>

definition sameOrNone :: "AccountManager \<Rightarrow> ref option \<Rightarrow> ref \<Rightarrow> bool" where
  "sameOrNone s nextAccount account =
     (case nextAccount of None \<Rightarrow> True
      | Some n \<Rightarrow> index (objs s n) = index (objs s account))"

text \<open>The bound the response branches of \<open>executeRequest\<close> put on \<open>retryCount\<close>: a 429
  recurses while \<open>retryCount < poolSize - 1\<close>, a 401 while \<open>retryCount < 1\<close>.\<close>

definition retryBudget :: "AccountManager \<Rightarrow> int" where
  "retryBudget s = max (int (length (accounts s)) - 1) 1"

text \<open>The invariant of the run that does not return: both accounts have an expired
  token, are marked as refreshing and hold no access token; the strategy is round-robin
  and the cursor stands on the account that is not the current one.\<close>

definition stuckObj :: "ManagedAccount \<Rightarrow> bool" where
  "stuckObj a =
     (expires a = Some 1 \<and> isRefreshing a = Some True \<and> access a = None
      \<and> consecutiveFailures a < 3 \<and> globalRateLimitReset a = None)"

definition pingPong :: "AccountManager \<Rightarrow> ref \<Rightarrow> bool" where
  "pingPong s a =
     (accounts s = [0, 1] \<and> a < 2 \<and> roundRobinCursor s = 1 - int a
      \<and> strategyInitialized s
      \<and> accountSelectionStrategy (config s) = RoundRobin
      \<and> 0 \<le> proactiveRefreshThresholdMs (config s)
      \<and> stuckObj (objs s 0) \<and> index (objs s 0) = 0
      \<and> stuckObj (objs s 1) \<and> index (objs s 1) = 1)"

section \<open>Properties of account selection\<close>

lemma js_rem_nonneg: "0 \<le> a \<Longrightarrow> 0 < b \<Longrightarrow> js_rem a b = a mod b"
  by (simp add: js_rem_def)

lemma js_rem_range: "0 \<le> a \<Longrightarrow> 0 < b \<Longrightarrow> 0 \<le> js_rem a b \<and> js_rem a b < b"
  by (simp add: js_rem_def)

lemma at_index_rem:
  "0 \<le> a \<Longrightarrow> xs \<noteq> [] \<Longrightarrow>
   at_index xs (js_rem a (int (length xs))) = Some (xs ! nat (a mod int (length xs)))"
  by (simp add: at_index_def js_rem_def)

lemma scanLoop_unfold:
  assumes "0 \<le> startIndex" "attempts < length (accounts s)"
  shows "scanLoop s model now startIndex attempts =
     (if availAt s model now startIndex attempts
      then Some (hit s now (int (scanPos s startIndex attempts)),
                 Inr (accounts s ! scanPos s startIndex attempts))
      else scanLoop s model now startIndex (Suc attempts))"
proof -
  have ne: "accounts s \<noteq> []" using assms(2) by auto
  have nn: "0 \<le> startIndex + int attempts" using assms(1) by simp
  have r: "js_rem (startIndex + int attempts) (int (length (accounts s)))
           = (startIndex + int attempts) mod int (length (accounts s))"
    using nn ne by (simp add: js_rem_def)
  have p: "at_index (accounts s) ((startIndex + int attempts) mod int (length (accounts s)))
           = Some (accounts s ! nat ((startIndex + int attempts) mod int (length (accounts s))))"
    using ne by (simp add: at_index_def)
  show ?thesis
    apply (subst scanLoop.simps)
    using assms(2) ne nn
    by (simp add: Let_def p availAt_def scanPos_def hit_def r)
qed

lemma scanLoop_none:
  assumes "0 \<le> startIndex"
    and "\<forall>k. attempts \<le> k \<and> k < length (accounts s) \<longrightarrow> \<not> availAt s model now startIndex k"
  shows "scanLoop s model now startIndex attempts = None"
  using assms
proof (induction "length (accounts s) - attempts" arbitrary: attempts)
  case 0
  then show ?case by (subst scanLoop.simps) simp
next
  case (Suc d)
  then have lt: "attempts < length (accounts s)" by simp
  have "scanLoop s model now startIndex (Suc attempts) = None"
    using Suc by (intro Suc.hyps(1)) auto
  then show ?case
    using Suc.prems lt by (simp add: scanLoop_unfold)
qed

lemma scanLoop_hit:
  assumes "0 \<le> startIndex" "attempts \<le> k" "k < length (accounts s)"
    and "availAt s model now startIndex k"
    and "\<forall>j. attempts \<le> j \<and> j < k \<longrightarrow> \<not> availAt s model now startIndex j"
  shows "scanLoop s model now startIndex attempts =
           Some (hit s now (int (scanPos s startIndex k)), Inr (accounts s ! scanPos s startIndex k))"
  using assms
proof (induction "k - attempts" arbitrary: attempts)
  case 0
  then have "attempts = k" by simp
  then show ?case using 0 by (simp add: scanLoop_unfold)
next
  case (Suc d)
  then have lt: "attempts < k" by simp
  have na: "\<not> availAt s model now startIndex attempts" using Suc.prems lt by auto
  have "scanLoop s model now startIndex (Suc attempts) =
          Some (hit s now (int (scanPos s startIndex k)), Inr (accounts s ! scanPos s startIndex k))"
    using Suc by (intro Suc.hyps(1)) auto
  then show ?case
    using Suc.prems lt na by (simp add: scanLoop_unfold)
qed

lemma leastLoop_acc: "\<exists>r. leastLoop h cfg model rs (Some b) e = Some r"
  by (induction rs arbitrary: b e) (auto simp: Let_def)

lemma leastLoop_None:
  "leastLoop h cfg model rs None None = None \<longleftrightarrow>
     (\<forall>r\<in>set rs. consecutiveFailures (h r) \<ge> 3)"
proof (induction rs)
  case Nil
  then show ?case by simp
next
  case (Cons r rs)
  show ?case
  proof (cases "consecutiveFailures (h r) \<ge> 3")
    case True
    then show ?thesis using Cons.IH by simp
  next
    case False
    obtain x where "leastLoop h cfg model rs (Some r) (Some (resetTimeOf cfg model (h r))) = Some x"
      using leastLoop_acc by blast
    then show ?thesis using False by (simp add: Let_def)
  qed
qed

lemma leastLoop_Some:
  "leastLoop h cfg model rs best e = Some r \<Longrightarrow>
     best = Some r \<or> (r \<in> set rs \<and> consecutiveFailures (h r) < 3)"
proof (induction rs arbitrary: best e)
  case Nil
  then show ?case by simp
next
  case (Cons a rs)
  show ?case
  proof (cases "consecutiveFailures (h a) \<ge> 3")
    case True
    then show ?thesis using Cons.IH [of best e] Cons.prems by auto
  next
    case False
    show ?thesis
      using False Cons.prems
        Cons.IH [of best e] Cons.IH [of "Some a" "Some (resetTimeOf cfg model (h a))"]
      by (auto simp: Let_def split: if_splits)
  qed
qed

lemma leastLoop_keep:
  "\<forall>j<length rs. consecutiveFailures (h (rs ! j)) < 3 \<longrightarrow> e \<le> resetTimeOf cfg model (h (rs ! j))
   \<Longrightarrow> leastLoop h cfg model rs (Some b) (Some e) = Some b"
proof (induction rs)
  case Nil
  then show ?case by simp
next
  case (Cons r rs)
  have tl: "\<forall>j<length rs. consecutiveFailures (h (rs ! j)) < 3 \<longrightarrow> e \<le> resetTimeOf cfg model (h (rs ! j))"
    using Cons.prems by (metis Suc_less_eq length_Cons nth_Cons_Suc)
  have hd: "consecutiveFailures (h r) < 3 \<longrightarrow> e \<le> resetTimeOf cfg model (h r)"
    using Cons.prems by (metis length_Cons nth_Cons_0 zero_less_Suc)
  show ?case using Cons.IH [OF tl] hd by (auto simp: Let_def)
qed

lemma leastLoop_first_min:
  assumes "i < length rs"
    and "consecutiveFailures (h (rs ! i)) < 3"
    and "\<forall>j<length rs. consecutiveFailures (h (rs ! j)) < 3 \<longrightarrow>
            resetTimeOf cfg model (h (rs ! i)) \<le> resetTimeOf cfg model (h (rs ! j))"
    and "\<forall>j<i. consecutiveFailures (h (rs ! j)) < 3 \<longrightarrow>
            resetTimeOf cfg model (h (rs ! i)) < resetTimeOf cfg model (h (rs ! j))"
    and "case e of None \<Rightarrow> True | Some t \<Rightarrow> resetTimeOf cfg model (h (rs ! i)) < t"
  shows "leastLoop h cfg model rs best e = Some (rs ! i)"
  using assms
proof (induction rs arbitrary: i best e)
  case Nil
  then show ?case by simp
next
  case (Cons r rs)
  show ?case
  proof (cases i)
    case 0
    have keep: "\<forall>j<length rs. consecutiveFailures (h (rs ! j)) < 3 \<longrightarrow>
                  resetTimeOf cfg model (h r) \<le> resetTimeOf cfg model (h (rs ! j))"
    proof (intro allI impI)
      fix j assume "j < length rs" "consecutiveFailures (h (rs ! j)) < 3"
      then show "resetTimeOf cfg model (h r) \<le> resetTimeOf cfg model (h (rs ! j))"
        using Cons.prems(3) [rule_format, of "Suc j"] 0 by simp
    qed
    show ?thesis
      using 0 Cons.prems(2,5) leastLoop_keep [OF keep]
      by (auto simp: Let_def split: option.splits)
  next
    case (Suc i')
    have a1: "i' < length rs" using Cons.prems(1) Suc by simp
    have a2: "consecutiveFailures (h (rs ! i')) < 3" using Cons.prems(2) Suc by simp
    have a3: "\<forall>j<length rs. consecutiveFailures (h (rs ! j)) < 3 \<longrightarrow>
            resetTimeOf cfg model (h (rs ! i')) \<le> resetTimeOf cfg model (h (rs ! j))"
    proof (intro allI impI)
      fix j assume "j < length rs" "consecutiveFailures (h (rs ! j)) < 3"
      then show "resetTimeOf cfg model (h (rs ! i')) \<le> resetTimeOf cfg model (h (rs ! j))"
        using Cons.prems(3) [rule_format, of "Suc j"] Suc by simp
    qed
    have a4: "\<forall>j<i'. consecutiveFailures (h (rs ! j)) < 3 \<longrightarrow>
            resetTimeOf cfg model (h (rs ! i')) < resetTimeOf cfg model (h (rs ! j))"
    proof (intro allI impI)
      fix j assume "j < i'" "consecutiveFailures (h (rs ! j)) < 3"
      then show "resetTimeOf cfg model (h (rs ! i')) < resetTimeOf cfg model (h (rs ! j))"
        using Cons.prems(4) [rule_format, of "Suc j"] Suc by simp
    qed
    have a5: "case e of None \<Rightarrow> True | Some t \<Rightarrow> resetTimeOf cfg model (h (rs ! i')) < t"
      using Cons.prems(5) Suc by (cases e) simp_all
    have hd: "consecutiveFailures (h r) < 3 \<longrightarrow>
                resetTimeOf cfg model (h (rs ! i')) < resetTimeOf cfg model (h r)"
      using Cons.prems(4) [rule_format, of 0] Suc by simp
    have skip: "leastLoop h cfg model rs best e = Some (rs ! i')"
      by (rule Cons.IH [OF a1 a2 a3 a4 a5])
    have take: "consecutiveFailures (h r) < 3 \<Longrightarrow>
       leastLoop h cfg model rs (Some r) (Some (resetTimeOf cfg model (h r))) = Some (rs ! i')"
      using hd by (intro Cons.IH [OF a1 a2 a3 a4]) simp
    show ?thesis
      using Suc skip take by (auto simp: Let_def)
  qed
qed

lemma init_accounts [simp]: "accounts (initializeStrategyState pid s) = accounts s"
  by (simp add: initializeStrategyState_def Let_def)

lemma init_objs [simp]: "objs (initializeStrategyState pid s) = objs s"
  by (simp add: initializeStrategyState_def Let_def)

lemma init_config [simp]: "config (initializeStrategyState pid s) = config s"
  by (simp add: initializeStrategyState_def Let_def)

lemma js_rem_ge0: "0 \<le> a \<Longrightarrow> 0 \<le> js_rem a b"
  by (cases "b = 0") (simp_all add: js_rem_def)

lemma normalizeIndex_ge0: "0 \<le> normalizeIndex s i"
  by (simp add: normalizeIndex_def)

lemma init_nonneg:
  assumes "strategyInitialized s \<longrightarrow> 0 \<le> activeIndex s \<and> 0 \<le> roundRobinCursor s"
  shows "0 \<le> activeIndex (initializeStrategyState pid s)
       \<and> 0 \<le> roundRobinCursor (initializeStrategyState pid s)"
proof (cases "strategyInitialized s")
  case True
  then show ?thesis using assms by (simp add: initializeStrategyState_def)
next
  case False
  have a: "0 \<le> js_rem (normalizeIndex s (activeIndex s) + 1) n" for n
    by (rule js_rem_ge0) (simp add: normalizeIndex_ge0 add_nonneg_nonneg)
  have b: "0 \<le> js_rem (x + js_rem \<bar>pid\<bar> n) m" if "0 \<le> x" for x n m
    by (rule js_rem_ge0) (simp add: that js_rem_ge0 add_nonneg_nonneg)
  show ?thesis
    using False a b normalizeIndex_ge0
    by (simp add: initializeStrategyState_def Let_def)
qed

lemma scanStart_ge0:
  "strategyInitialized s \<longrightarrow> 0 \<le> activeIndex s \<and> 0 \<le> roundRobinCursor s
   \<Longrightarrow> 0 \<le> scanStart pid s"
  using init_nonneg [of s pid] by (simp add: scanStart_def Let_def)

lemma scanPos_lt: "accounts s \<noteq> [] \<Longrightarrow> scanPos s st k < length (accounts s)"
  by (simp add: scanPos_def nat_less_iff)

lemma scanPos_init [simp]: "scanPos (initializeStrategyState pid s) st k = scanPos s st k"
  by (simp add: scanPos_def)

lemma availAt_init [simp]:
  "availAt (initializeStrategyState pid s) model now st k = availAt s model now st k"
  by (simp add: availAt_def)

lemma isAccountAvailable_spec:
  "0 \<le> now \<Longrightarrow> isAccountAvailable cfg a model now = available_spec cfg a model now"
  by (auto simp: isAccountAvailable_def available_spec_def and_gt_def strictlyFuture_def
        modelGiven_def truthy_str_def split: option.splits)

lemma getNext_primary:
  assumes wf: "strategyInitialized s \<longrightarrow> 0 \<le> activeIndex s \<and> 0 \<le> roundRobinCursor s"
    and k: "k < length (accounts s)"
    and av: "availAt s model now (scanStart pid s) k"
    and first: "\<forall>j<k. \<not> availAt s model now (scanStart pid s) j"
  shows "getNextAvailableAccount pid s model now =
           (hit (initializeStrategyState pid s) now (int (scanPos s (scanStart pid s) k)),
            Inr (Some (accounts s ! scanPos s (scanStart pid s) k)))"
proof -
  let ?s1 = "initializeStrategyState pid s"
  have ne: "length (accounts s) \<noteq> 0" using k by auto
  have st: "0 \<le> scanStart pid s" by (rule scanStart_ge0 [OF wf])
  have "scanLoop ?s1 model now (scanStart pid s) 0 =
          Some (hit ?s1 now (int (scanPos ?s1 (scanStart pid s) k)),
                Inr (accounts ?s1 ! scanPos ?s1 (scanStart pid s) k))"
    using k av first by (intro scanLoop_hit [OF st]) simp_all
  then show ?thesis
    using ne by (simp add: getNextAvailableAccount_def scanStart_def Let_def)
qed

lemma getNext_fallback:
  assumes wf: "strategyInitialized s \<longrightarrow> 0 \<le> activeIndex s \<and> 0 \<le> roundRobinCursor s"
    and ne: "accounts s \<noteq> []"
    and none: "\<forall>k<length (accounts s). \<not> availAt s model now (scanStart pid s) k"
  shows "snd (getNextAvailableAccount pid s model now) =
           Inr (leastLoop (objs s) (config s) model (accounts s) None None)"
proof -
  let ?s1 = "initializeStrategyState pid s"
  have st: "0 \<le> scanStart pid s" by (rule scanStart_ge0 [OF wf])
  have "scanLoop ?s1 model now (scanStart pid s) 0 = None"
    using none by (intro scanLoop_none [OF st]) simp
  then show ?thesis
    using ne
    by (simp add: getNextAvailableAccount_def scanStart_def Let_def
          getLeastRateLimitedAccount_def split: option.splits)
qed

lemma least_first:
  assumes "\<exists>k. (k::nat) < n \<and> P k"
  shows "\<exists>k<n. P k \<and> (\<forall>j<k. \<not> P j)"
proof -
  obtain k where k: "k < n \<and> P k" and m: "\<forall>m<k. \<not> (m < n \<and> P m)"
    using assms exists_least_iff [of "\<lambda>k. k < n \<and> P k"] by blast
  have "\<forall>j<k. \<not> P j"
  proof (intro allI impI)
    fix j assume "j < k"
    then have "\<not> (j < n \<and> P j)" using m by blast
    moreover have "j < n" using \<open>j < k\<close> k by simp
    ultimately show "\<not> P j" by blast
  qed
  then show ?thesis using k by blast
qed

lemma resetTimeOf_spec: "resetTimeOf cfg model a = combinedResetTime cfg model a"
  by (auto simp: resetTimeOf_def combinedResetTime_def Let_def or0_def truthy_str_def
        modelGiven_def split: option.splits)


subsection \<open>Facts about the concrete pools\<close>

lemma limitedPool_simps:
  "accounts limitedPool = [0, 1]"
  "config limitedPool = cfgOf Sticky"
  "strategyInitialized limitedPool = False"
  "activeIndex limitedPool = 0"
  "objs limitedPool 0 = (plainAccount 0 ''rt-1'')\<lparr>globalRateLimitReset := Some 5000\<rparr>"
  "objs limitedPool (Suc 0) = plainAccount 1 ''rt-2''"
  by (simp_all add: limitedPool_def poolOf_def newAccountManager_def loadFromDisk_def or0_def upt_rec)

lemma scanStart_fresh_sticky:
  "\<not> strategyInitialized s \<Longrightarrow> activeIndex s = 0 \<Longrightarrow> accounts s \<noteq> [] \<Longrightarrow>
   accountSelectionStrategy (config s) = Sticky \<Longrightarrow> \<not> pidOffsetEnabled (config s) \<Longrightarrow>
   scanStart pid s = 0"
  by (simp add: scanStart_def initializeStrategyState_def Let_def normalizeIndex_def)

lemma exhaustedPool_simps:
  "accounts exhaustedPool = [0, 1]"
  "config exhaustedPool = cfgOf Sticky"
  "strategyInitialized exhaustedPool = False"
  "activeIndex exhaustedPool = 0"
  "objs exhaustedPool 0 = (plainAccount 0 ''rt-1'')\<lparr>globalRateLimitReset := Some 5000\<rparr>"
  "objs exhaustedPool (Suc 0) = (plainAccount 1 ''rt-2'')\<lparr>globalRateLimitReset := Some 3000\<rparr>"
  by (simp_all add: exhaustedPool_def poolOf_def newAccountManager_def loadFromDisk_def or0_def upt_rec)




lemma cfg_simps:
  "proactiveRefreshThresholdMs (cfgOf st) = 300000"
  "perModelRateLimits (cfgOf st) = True"
  "removeOnInvalidGrant (cfgOf st) = True"
  "pidOffsetEnabled (cfgOf st) = False"
  "accountSelectionStrategy (cfgOf st) = st"
  by (simp_all add: cfgOf_def DEFAULT_MULTI_ACCOUNT_CONFIG_def)

lemma lonelyPool_simps:
  "accounts lonelyPool = [0, 1]"
  "config lonelyPool = cfgOf Sticky"
  "objs lonelyPool 0 = (plainAccount 0 ''rt-1'')\<lparr>accountId := Some ''acc-1''\<rparr>"
  by (simp_all add: lonelyPool_def poolOf_def newAccountManager_def loadFromDisk_def or0_def upt_rec)

lemma perModelPool_simps:
  "accounts perModelPool = [0, 1]"
  "config perModelPool = cfgOf Sticky"
  "strategyInitialized perModelPool = False"
  "activeIndex perModelPool = 0"
  "objs perModelPool 0 =
     (plainAccount 0 ''rt-1'')\<lparr>rateLimitResets := (\<lambda>_. None)(''gpt'' := Some 5000)\<rparr>"
  "objs perModelPool (Suc 0) =
     (plainAccount 1 ''rt-2'')\<lparr> globalRateLimitReset := Some 3000,
        rateLimitResets := (\<lambda>_. None)(''gpt'' := Some 4000) \<rparr>"
  by (simp_all add: perModelPool_def poolOf_def newAccountManager_def loadFromDisk_def or0_def upt_rec)


section \<open>Properties of the account store\<close>







lemma updateAccountTokens_fields:
  "consecutiveFailures (objs (updateAccountTokens dec s account acc rfr ex) account) = 0"
  "isRefreshing (objs (updateAccountTokens dec s account acc rfr ex) account) = Some False"
  "lastRefreshError (objs (updateAccountTokens dec s account acc rfr ex) account) = None"
  "access (objs (updateAccountTokens dec s account acc rfr ex) account) = Some acc"
  "refreshToken (objs (updateAccountTokens dec s account acc rfr ex) account) = rfr"
  "expires (objs (updateAccountTokens dec s account acc rfr ex) account) = Some ex"
  "globalRateLimitReset (objs (updateAccountTokens dec s account acc rfr ex) account)
     = globalRateLimitReset (objs s account)"
  "rateLimitResets (objs (updateAccountTokens dec s account acc rfr ex) account)
     = rateLimitResets (objs s account)"
  "accounts (updateAccountTokens dec s account acc rfr ex) = accounts s"
  "config (updateAccountTokens dec s account acc rfr ex) = config s"
  by (simp_all add: updateAccountTokens_def Let_def split: option.splits)







section \<open>Properties of the snapshot merge\<close>

lemma map_of_map_set: "map_of (map_set k v m) = (map_of m)(k \<mapsto> v)"
  by (induction m) (auto simp: fun_eq_iff)

lemma keys_map_set: "fst ` set (map_set k v m) = insert k (fst ` set m)"
  by (simp add: dom_map_of_conv_image_fst [symmetric] map_of_map_set)

lemma distinct_map_set: "distinct (map fst m) \<Longrightarrow> distinct (map fst (map_set k v m))"
proof (induction m)
  case Nil
  then show ?case by simp
next
  case (Cons p m)
  obtain k' v' where p: "p = (k', v')" by (cases p)
  show ?case
  proof (cases "k' = k")
    case True
    then show ?thesis using Cons.prems p by simp
  next
    case False
    have "k' \<notin> fst ` set (map_set k v m)"
      using Cons.prems p False by (simp add: keys_map_set)
    then show ?thesis using Cons p False by simp
  qed
qed

lemma distinct_foldl_set:
  "distinct (map fst m) \<Longrightarrow> distinct (map fst (foldl (\<lambda>m (k, v). map_set k v m) m pairs))"
  by (induction pairs arbitrary: m) (auto simp: distinct_map_set)

lemma distinct_new_Map: "distinct (map fst (new_Map pairs))"
  unfolding new_Map_def by (rule distinct_foldl_set) simp

lemma distinct_mergeMemory:
  "distinct (map fst dm) \<Longrightarrow> distinct (map fst (mergeMemory mem dm))"
  by (induction mem dm rule: mergeMemory.induct)
     (auto simp: distinct_map_set split: option.splits)

lemma map_of_mergeMemory:
  "distinct (map fst mem) \<Longrightarrow>
   map_of (mergeMemory mem dm) k = mergeEntry (map_of mem k) (map_of dm k)"
proof (induction mem dm rule: mergeMemory.induct)
  case (1 diskMap)
  then show ?case by (simp add: mergeEntry_def)
next
  case (2 key memoryValue rest diskMap)
  let ?dm' = "case map_of diskMap key of
          None \<Rightarrow> map_set key memoryValue diskMap
        | Some diskValue \<Rightarrow>
            if updatedAt memoryValue > updatedAt diskValue
            then map_set key memoryValue diskMap else diskMap"
  have d: "distinct (map fst rest)" and nk: "map_of rest key = None"
    using "2.prems" by (auto simp: map_of_eq_None_iff)
  have ih: "map_of (mergeMemory rest ?dm') k = mergeEntry (map_of rest k) (map_of ?dm' k)"
    by (rule "2.IH" [OF d])
  have step: "map_of ?dm' = (map_of diskMap)(key := mergeEntry (Some memoryValue) (map_of diskMap key))"
    by (auto simp: mergeEntry_def map_of_map_set fun_eq_iff split: option.splits)
  show ?case
  proof (cases "k = key")
    case True
    then show ?thesis using ih nk step by (simp add: mergeEntry_def)
  next
    case False
    then show ?thesis using ih step by simp
  qed
qed

lemma map_of_filter_distinct:
  "distinct (map fst m) \<Longrightarrow>
   map_of (filter (\<lambda>(k, v). P v) m) k =
     (case map_of m k of None \<Rightarrow> None | Some v \<Rightarrow> if P v then Some v else None)"
proof (induction m)
  case Nil
  then show ?case by simp
next
  case (Cons p m)
  obtain k' v' where p: "p = (k', v')" by (cases p)
  have nk: "map_of m k' = None" using Cons.prems p by (auto simp: map_of_eq_None_iff)
  have nf: "map_of (filter (\<lambda>(k, v). P v) m) k' = None"
    using Cons.prems p by (auto simp: map_of_eq_None_iff)
  show ?case using Cons p nk nf by (auto split: option.splits)
qed

lemma map_of_pruneOld:
  "distinct (map fst m) \<Longrightarrow> map_of (pruneOld now m) k = keepFresh now (map_of m k)"
  unfolding pruneOld_def keepFresh_def
  by (subst map_of_filter_distinct) (auto split: option.splits)

section \<open>Properties of the request orchestrator\<close>

lemma differs_iff: "differs s nxt account = (\<not> sameOrNone s nxt account)"
  by (simp add: differs_def sameOrNone_def split: option.splits)

lemma differs_the: "differs s nxt account \<Longrightarrow> index (objs s (the nxt)) \<noteq> index (objs s account)"
  by (cases nxt) (simp_all add: differs_def)

lemma finish_not_Recurse [simp]: "finish r \<noteq> Recurse n rc"
  by (simp add: finish_def)

lemma finish_error:
  "status r = TOO_MANY_REQUESTS \<or> status r = UNAUTHORIZED \<Longrightarrow> finish r = Return (Upstream r)"
  by (auto simp: finish_def ok_def handleErrorResponse_def TOO_MANY_REQUESTS_def
        UNAUTHORIZED_def NOT_FOUND_def)

lemma onResponse_Recurse:
  assumes "onResponse pid io s account retryCount model response = (s', Recurse nxt rc)"
  shows "index (objs s' nxt) \<noteq> index (objs s' account) \<and> rc = retryCount + 1"
proof (cases "status response = TOO_MANY_REQUESTS")
  case True
  let ?s1 = "markRateLimited s account (retryAfterMsOf io response) model (clockMark io)"
  show ?thesis
  proof (cases "int retryCount < int (length (accounts ?s1)) - 1")
    case b: True
    obtain s2 res where g: "getNextAvailableAccount pid ?s1 model (clockSelect io) = (s2, res)"
      by (cases "getNextAvailableAccount pid ?s1 model (clockSelect io)")
    show ?thesis
    proof (cases res)
      case (Inl e)
      then show ?thesis using assms True b g by (simp add: onResponse_def Let_def)
    next
      case (Inr nextAccount)
      then show ?thesis
        using assms True b g differs_the [of s2 nextAccount account]
        by (auto simp: onResponse_def Let_def split: if_splits)
    qed
  next
    case False
    then show ?thesis using assms True by (simp add: onResponse_def Let_def)
  qed
next
  case n429: False
  show ?thesis
  proof (cases "status response = UNAUTHORIZED \<and> retryCount < 1")
    case True
    let ?s1 = "markRefreshFailed s account ''401 Unauthorized''"
    obtain s2 res where g: "getNextAvailableAccount pid ?s1 model (clockSelect io) = (s2, res)"
      by (cases "getNextAvailableAccount pid ?s1 model (clockSelect io)")
    show ?thesis
    proof (cases res)
      case (Inl e)
      then show ?thesis using assms n429 True g by (simp add: onResponse_def Let_def)
    next
      case (Inr nextAccount)
      then show ?thesis
        using assms n429 True g differs_the [of s2 nextAccount account]
        by (auto simp: onResponse_def Let_def split: if_splits)
    qed
  next
    case False
    then show ?thesis using assms n429 by (auto simp: onResponse_def Let_def)
  qed
qed

lemma step_Recurse:
  assumes "executeRequest_step dec pid io body s account retryCount = (s', Recurse nxt rc, n)"
  shows "index (objs s' nxt) \<noteq> index (objs s' account)
         \<and> ((n = 0 \<and> rc = retryCount) \<or> (n = 1 \<and> rc = retryCount + 1))"
proof -
  obtain s1 valid calls where e:
    "ensureValidToken dec (refreshReply io) (writeReply io) s account (clockToken io) = (s1, valid, calls)"
    by (cases "ensureValidToken dec (refreshReply io) (writeReply io) s account (clockToken io)")
  show ?thesis
  proof (cases valid)
    case False
    obtain s2 res where g: "getNextAvailableAccount pid s1 None (clockSelect io) = (s2, res)"
      by (cases "getNextAvailableAccount pid s1 None (clockSelect io)")
    show ?thesis
    proof (cases res)
      case (Inl x)
      then show ?thesis using assms e False g by (simp add: executeRequest_step_def)
    next
      case (Inr nextAccount)
      then show ?thesis
        using assms e False g differs_the [of s2 nextAccount account]
        by (auto simp: executeRequest_step_def split: if_splits)
    qed
  next
    case True
    show ?thesis
    proof (cases "body = InvalidJson \<or> \<not> truthy_str (resolveAccountId dec (objs s1 account))")
      case True
      then show ?thesis
        using assms e \<open>valid\<close>
        by (auto simp: executeRequest_step_def Let_def split: if_splits)
    next
      case ok: False
      show ?thesis
      proof (cases "upstream io")
        case FetchThrew
        then show ?thesis using assms e \<open>valid\<close> ok by (simp add: executeRequest_step_def Let_def)
      next
        case (Fetched response)
        obtain s2 act where o:
          "onResponse pid io s1 account retryCount (extractModelFromBody body) response = (s2, act)"
          by (cases "onResponse pid io s1 account retryCount (extractModelFromBody body) response")
        have "s2 = s' \<and> act = Recurse nxt rc \<and> n = 1"
          using assms e \<open>valid\<close> ok Fetched o by (simp add: executeRequest_step_def Let_def)
        then show ?thesis using onResponse_Recurse [of pid io s1 account retryCount _ response s' nxt rc] o
          by auto
      qed
    qed
  qed
qed

lemma stuck_token:
  assumes "stuckObj (objs s a)" "0 \<le> proactiveRefreshThresholdMs (config s)" "1 \<le> now"
  shows "ensureValidToken dec rf wr s a now = (s, False, [])"
  using assms
  by (simp add: ensureValidToken_def Let_def stuckObj_def truthy_num_def truthy_bool_def
        truthy_str_def)

lemma stuckObj_available: "stuckObj a \<Longrightarrow> isAccountAvailable cfg a None now"
  by (simp add: stuckObj_def isAccountAvailable_def and_gt_def truthy_str_def)

lemma pingPong_select:
  assumes p: "pingPong s a"
  shows "getNextAvailableAccount pid s None now = (hit s now (1 - int a), Inr (Some (1 - a)))"
proof -
  have acc: "accounts s = [0, 1]" and a: "a < 2" and cur: "roundRobinCursor s = 1 - int a"
    and ini: "strategyInitialized s" and rr: "accountSelectionStrategy (config s) = RoundRobin"
    and o0: "stuckObj (objs s 0)" and o1: "stuckObj (objs s 1)"
    using p by (simp_all add: pingPong_def)
  have init: "initializeStrategyState pid s = s" using ini by (simp add: initializeStrategyState_def)
  have st: "scanStart pid s = 1 - int a" using init rr cur by (simp add: scanStart_def Let_def)
  have a01: "a = 0 \<or> a = 1" using a by auto
  have pos: "scanPos s (1 - int a) 0 = 1 - a"
    using a01 by (auto simp: scanPos_def acc)
  have av: "availAt s None now (1 - int a) 0"
    using a01 o0 o1 by (auto simp: availAt_def pos acc stuckObj_available)
  have "scanLoop s None now (1 - int a) 0 =
          Some (hit s now (int (scanPos s (1 - int a) 0)), Inr (accounts s ! scanPos s (1 - int a) 0))"
    using a01 av by (intro scanLoop_hit) (auto simp: acc)
  moreover have "int (scanPos s (1 - int a) 0) = 1 - int a" using a01 by (auto simp: pos)
  moreover have "accounts s ! scanPos s (1 - int a) 0 = 1 - a" using a01 by (auto simp: pos acc)
  ultimately have "scanLoop s None now (1 - int a) 0 = Some (hit s now (1 - int a), Inr (1 - a))"
    by simp
  then show ?thesis
    using init rr cur acc by (simp add: getNextAvailableAccount_def Let_def)
qed

lemma pingPong_hit:
  assumes p: "pingPong s a"
  shows "pingPong (hit s now (1 - int a)) (1 - a)"
proof -
  have a01: "a = 0 \<or> a = 1" using p by (auto simp: pingPong_def)
  then show ?thesis
    using p
    by (auto simp: pingPong_def hit_def stuckObj_def js_rem_def)
qed

lemma pingPong_step:
  assumes p: "pingPong s a" and t: "1 \<le> clockToken io"
  shows "executeRequest_step dec pid io body s a rc
           = (hit s (clockSelect io) (1 - int a), Recurse (1 - a) rc, 0)"
proof -
  have a01: "a = 0 \<or> a = 1" using p by (auto simp: pingPong_def)
  have so: "stuckObj (objs s a)" using p a01 by (auto simp: pingPong_def)
  have thr: "0 \<le> proactiveRefreshThresholdMs (config s)" using p by (simp add: pingPong_def)
  have tok: "ensureValidToken dec (refreshReply io) (writeReply io) s a (clockToken io) = (s, False, [])"
    by (rule stuck_token [OF so thr t])
  have sel: "getNextAvailableAccount pid s None (clockSelect io)
              = (hit s (clockSelect io) (1 - int a), Inr (Some (1 - a)))"
    by (rule pingPong_select [OF p])
  have pp: "pingPong (hit s (clockSelect io) (1 - int a)) (1 - a)"
    by (rule pingPong_hit [OF p])
  have dif: "differs (hit s (clockSelect io) (1 - int a)) (Some (1 - a)) a"
    using pp a01 by (auto simp: differs_def pingPong_def)
  show ?thesis
    using tok sel dif by (simp add: executeRequest_step_def)
qed

lemma pingPong_diverges:
  assumes "pingPong s a" and "\<forall>k. 1 \<le> clockToken (io k)"
  shows "executeRequest fuel dec pid io k body s a rc = None"
  using assms
proof (induction fuel arbitrary: s a k)
  case 0
  then show ?case by simp
next
  case (Suc fuel)
  have t: "1 \<le> clockToken (io k)" using Suc.prems(2) by simp
  have step: "executeRequest_step dec pid (io k) body s a rc
           = (hit s (clockSelect (io k)) (1 - int a), Recurse (1 - a) rc, 0)"
    by (rule pingPong_step [OF Suc.prems(1) t])
  have "executeRequest fuel dec pid io (Suc k) body (hit s (clockSelect (io k)) (1 - int a)) (1 - a) rc
          = None"
    by (rule Suc.IH [OF pingPong_hit [OF Suc.prems(1)] Suc.prems(2)])
  then show ?case using step by simp
qed

lemma stuckPool_first:
  "\<exists>s1. getNextAvailableAccount pid stuckPool model now = (s1, Inr (Some 0)) \<and> pingPong s1 0"
proof -
  have f: "accounts stuckPool = [0, 1]" "config stuckPool = cfgOf RoundRobin"
    "strategyInitialized stuckPool = False" "activeIndex stuckPool = 0"
    "objs stuckPool 0 = stuckAccount 0 ''rt-1''" "objs stuckPool (Suc 0) = stuckAccount 1 ''rt-2''"
    by (simp_all add: stuckPool_def poolOf_def newAccountManager_def loadFromDisk_def or0_def upt_rec)
  let ?s1 = "initializeStrategyState pid stuckPool"
  have i: "?s1 = stuckPool\<lparr>activeIndex := 0, roundRobinCursor := 0, strategyInitialized := True\<rparr>"
    by (simp add: initializeStrategyState_def Let_def f normalizeIndex_def cfgOf_def
          DEFAULT_MULTI_ACCOUNT_CONFIG_def)
  have wf: "strategyInitialized stuckPool \<longrightarrow>
              0 \<le> activeIndex stuckPool \<and> 0 \<le> roundRobinCursor stuckPool"
    by (simp add: f)
  have st: "scanStart pid stuckPool = 0"
    by (simp add: scanStart_def Let_def i f cfgOf_def DEFAULT_MULTI_ACCOUNT_CONFIG_def)
  have av: "availAt stuckPool model now 0 0"
    by (simp add: availAt_def scanPos_def f isAccountAvailable_def stuckAccount_def
          plainAccount_def newAccount_def and_gt_def)
  have g: "getNextAvailableAccount pid stuckPool model now =
           (hit ?s1 now (int (scanPos stuckPool (scanStart pid stuckPool) 0)),
            Inr (Some (accounts stuckPool ! scanPos stuckPool (scanStart pid stuckPool) 0)))"
    using av by (intro getNext_primary [OF wf]) (simp_all add: f st)
  have pos: "scanPos stuckPool 0 0 = 0" by (simp add: scanPos_def f)
  have pp: "pingPong (hit ?s1 now 0) 0"
    by (simp add: pingPong_def hit_def i f stuckObj_def stuckAccount_def plainAccount_def
          newAccount_def cfgOf_def DEFAULT_MULTI_ACCOUNT_CONFIG_def js_rem_def)
  show ?thesis
    using g pp by (simp add: st pos f)
qed

lemma scanLoop_accounts:
  "scanLoop s model now st k = Some (s', r) \<Longrightarrow> accounts s' = accounts s"
proof (induction s model now st k rule: scanLoop.induct)
  case (1 s model now startIndex attempts)
  show ?case
  proof (cases "attempts < length (accounts s)")
    case False
    then show ?thesis using "1.prems" by (subst (asm) scanLoop.simps) simp
  next
    case lt: True
    let ?idx = "js_rem (startIndex + int attempts) (int (length (accounts s)))"
    show ?thesis
    proof (cases "at_index (accounts s) ?idx")
      case None
      then show ?thesis
        using "1.prems" lt by (subst (asm) scanLoop.simps) (auto simp: Let_def)
    next
      case (Some account)
      show ?thesis
      proof (cases "isAccountAvailable (config s) (objs s account) model now")
        case True
        then show ?thesis
          using "1.prems" lt Some by (subst (asm) scanLoop.simps) (auto simp: Let_def)
      next
        case False
        have "scanLoop s model now startIndex (Suc attempts) = Some (s', r)"
          using "1.prems" lt Some False by (subst (asm) scanLoop.simps) (simp add: Let_def)
        then show ?thesis
          using "1.IH" [OF lt refl Some False] by simp
      qed
    qed
  qed
qed

lemma getNext_accounts:
  "getNextAvailableAccount pid s model now = (s', r) \<Longrightarrow> accounts s' = accounts s"
proof -
  assume g: "getNextAvailableAccount pid s model now = (s', r)"
  let ?s1 = "initializeStrategyState pid s"
  let ?st = "if accountSelectionStrategy (config ?s1) = RoundRobin
             then roundRobinCursor ?s1 else activeIndex ?s1"
  show ?thesis
  proof (cases "length (accounts s) = 0")
    case True
    then show ?thesis using g by (simp add: getNextAvailableAccount_def)
  next
    case ne: False
    show ?thesis
    proof (cases "scanLoop ?s1 model now ?st 0")
      case None
      then show ?thesis
        using g ne by (auto simp: getNextAvailableAccount_def Let_def split: option.splits)
    next
      case (Some p)
      obtain s2 r2 where p: "p = (s2, r2)" by (cases p)
      have "accounts s2 = accounts ?s1" using Some p scanLoop_accounts by blast
      then show ?thesis
        using g ne Some p
        by (auto simp: getNextAvailableAccount_def Let_def split: sum.splits)
    qed
  qed
qed

lemma removeAccount_length: "length (accounts (removeAccount s a)) \<le> length (accounts s)"
  by (auto simp: removeAccount_def Let_def min_def split: option.splits)

lemma markRefreshFailed_length:
  "length (accounts (markRefreshFailed s a err)) \<le> length (accounts s)"
proof -
  let ?s1 = "s\<lparr>objs := (objs s)(a := (objs s a)\<lparr> consecutiveFailures := consecutiveFailures (objs s a) + 1,
                    lastRefreshError := Some err, isRefreshing := Some False \<rparr>)\<rparr>"
  have "length (accounts (removeAccount ?s1 a)) \<le> length (accounts ?s1)"
    by (rule removeAccount_length)
  then show ?thesis by (simp add: markRefreshFailed_def Let_def)
qed

lemma markRateLimited_accounts [simp]:
  "accounts (markRateLimited s a ms model now) = accounts s"
  by (simp add: markRateLimited_def Let_def)

lemma ensureValidToken_length:
  "ensureValidToken dec rf wr s a now = (s', v, c) \<Longrightarrow> length (accounts s') \<le> length (accounts s)"
proof -
  assume e: "ensureValidToken dec rf wr s a now = (s', v, c)"
  let ?s1 = "s\<lparr>objs := (objs s)(a := (objs s a)\<lparr>isRefreshing := Some True\<rparr>)\<rparr>"
  have f: "length (accounts (markRefreshFailed ?s1 a err)) \<le> length (accounts s)" for err
    using markRefreshFailed_length [of ?s1 a err] by simp
  have g: "length (accounts (markRefreshFailed (updateAccountTokens dec ?s1 a acc rfr ex) a err))
             \<le> length (accounts s)" for acc rfr ex err
    using markRefreshFailed_length [of "updateAccountTokens dec ?s1 a acc rfr ex" a err]
    by (simp add: updateAccountTokens_fields)
  show ?thesis
    using e f g
    by (auto simp: ensureValidToken_def Let_def updateAccountTokens_fields
          split: if_splits refresh_result.splits write_result.splits)
qed

lemma onResponse_budget:
  assumes "onResponse pid io s account retryCount model response = (s', Recurse nxt rc)"
  shows "length (accounts s') \<le> length (accounts s) \<and> int retryCount < retryBudget s"
proof (cases "status response = TOO_MANY_REQUESTS")
  case True
  let ?s1 = "markRateLimited s account (retryAfterMsOf io response) model (clockMark io)"
  show ?thesis
  proof (cases "int retryCount < int (length (accounts ?s1)) - 1")
    case b: True
    obtain s2 res where g: "getNextAvailableAccount pid ?s1 model (clockSelect io) = (s2, res)"
      by (cases "getNextAvailableAccount pid ?s1 model (clockSelect io)")
    have a2: "accounts s2 = accounts s" using getNext_accounts [OF g] by simp
    have "s' = s2"
      using assms True b g by (auto simp: onResponse_def Let_def split: sum.splits if_splits)
    then show ?thesis using a2 b by (simp add: retryBudget_def)
  next
    case False
    then show ?thesis using assms True by (simp add: onResponse_def Let_def)
  qed
next
  case n429: False
  show ?thesis
  proof (cases "status response = UNAUTHORIZED \<and> retryCount < 1")
    case True
    let ?s1 = "markRefreshFailed s account ''401 Unauthorized''"
    obtain s2 res where g: "getNextAvailableAccount pid ?s1 model (clockSelect io) = (s2, res)"
      by (cases "getNextAvailableAccount pid ?s1 model (clockSelect io)")
    have a2: "length (accounts s2) \<le> length (accounts s)"
      using getNext_accounts [OF g] markRefreshFailed_length [of s account "''401 Unauthorized''"]
      by simp
    have "s' = s2"
      using assms n429 True g by (auto simp: onResponse_def Let_def split: sum.splits if_splits)
    then show ?thesis using a2 True by (simp add: retryBudget_def)
  next
    case False
    then show ?thesis using assms n429 by (auto simp: onResponse_def Let_def)
  qed
qed

lemma step_budget:
  assumes "executeRequest_step dec pid io body s account retryCount = (s', Recurse nxt rc, n)"
  shows "length (accounts s') \<le> length (accounts s)
         \<and> ((n = 0 \<and> rc = retryCount)
             \<or> (n = 1 \<and> rc = retryCount + 1 \<and> int retryCount < retryBudget s))"
proof -
  obtain s1 valid calls where e:
    "ensureValidToken dec (refreshReply io) (writeReply io) s account (clockToken io) = (s1, valid, calls)"
    by (cases "ensureValidToken dec (refreshReply io) (writeReply io) s account (clockToken io)")
  have l1: "length (accounts s1) \<le> length (accounts s)" by (rule ensureValidToken_length [OF e])
  show ?thesis
  proof (cases valid)
    case False
    obtain s2 res where g: "getNextAvailableAccount pid s1 None (clockSelect io) = (s2, res)"
      by (cases "getNextAvailableAccount pid s1 None (clockSelect io)")
    have "accounts s2 = accounts s1" by (rule getNext_accounts [OF g])
    moreover have "s' = s2 \<and> n = 0 \<and> rc = retryCount"
      using assms e False g
      by (auto simp: executeRequest_step_def split: sum.splits if_splits)
    ultimately show ?thesis using l1 by simp
  next
    case True
    show ?thesis
    proof (cases "body = InvalidJson \<or> \<not> truthy_str (resolveAccountId dec (objs s1 account))")
      case True
      then show ?thesis
        using assms e \<open>valid\<close>
        by (auto simp: executeRequest_step_def Let_def split: if_splits)
    next
      case ok: False
      show ?thesis
      proof (cases "upstream io")
        case FetchThrew
        then show ?thesis using assms e \<open>valid\<close> ok by (simp add: executeRequest_step_def Let_def)
      next
        case (Fetched response)
        obtain s2 act where o:
          "onResponse pid io s1 account retryCount (extractModelFromBody body) response = (s2, act)"
          by (cases "onResponse pid io s1 account retryCount (extractModelFromBody body) response")
        have eq: "s2 = s' \<and> act = Recurse nxt rc \<and> n = 1"
          using assms e \<open>valid\<close> ok Fetched o by (simp add: executeRequest_step_def Let_def)
        then have o': "onResponse pid io s1 account retryCount (extractModelFromBody body) response
                        = (s', Recurse nxt rc)" using o by simp
        have "length (accounts s') \<le> length (accounts s1) \<and> int retryCount < retryBudget s1"
          by (rule onResponse_budget [OF o'])
        moreover have "rc = retryCount + 1" using onResponse_Recurse [OF o'] by simp
        moreover have "retryBudget s1 \<le> retryBudget s" using l1 by (simp add: retryBudget_def)
        ultimately show ?thesis using eq l1 by simp
      qed
    qed
  qed
qed

lemma transport_calls_bounded:
  "executeRequest fuel dec pid io k body s account rc = Some (s', r, n)
   \<Longrightarrow> int n \<le> max 1 (retryBudget s + 1 - int rc)"
proof (induction fuel arbitrary: s account rc k n s' r)
  case 0
  then show ?case by simp
next
  case (Suc fuel)
  obtain s1 act n0 where st: "executeRequest_step dec pid (io k) body s account rc = (s1, act, n0)"
    by (cases "executeRequest_step dec pid (io k) body s account rc")
  have n01: "n0 \<le> 1"
    using st by (auto simp: executeRequest_step_def Let_def split: prod.splits sum.splits if_splits fetch_result.splits)
  show ?case
  proof (cases act)
    case (Return x)
    then show ?thesis using Suc.prems st n01 by auto
  next
    case (Throw x)
    then show ?thesis using Suc.prems st n01 by auto
  next
    case (Recurse nxt rc')
    obtain s2 r2 m where rec: "executeRequest fuel dec pid io (Suc k) body s1 nxt rc' = Some (s2, r2, m)"
      and n: "n = n0 + m"
      using Suc.prems st Recurse by (auto split: option.splits)
    have ih: "int m \<le> max 1 (retryBudget s1 + 1 - int rc')" by (rule Suc.IH [OF rec])
    have sb: "length (accounts s1) \<le> length (accounts s)
         \<and> ((n0 = 0 \<and> rc' = rc) \<or> (n0 = 1 \<and> rc' = rc + 1 \<and> int rc < retryBudget s))"
      using step_budget st Recurse by blast
    have b: "retryBudget s1 \<le> retryBudget s" using sb by (auto simp: retryBudget_def)
    show ?thesis using ih sb b n by auto
  qed
qed

lemma three_account_pool_bound:
  assumes "length (accounts s) = 3"
    and "executeRequest fuel dec pid io k body s account 0 = Some (s', r, n)"
  shows "n \<le> 3"
proof -
  have "int n \<le> max 1 (retryBudget s + 1 - int 0)"
    using assms(2) by (rule transport_calls_bounded)
  then show ?thesis using assms(1) by (simp add: retryBudget_def)
qed

lemma always_429_three_accounts:
  "(case pluginFetch 10 noClaims 0 1000 (\<lambda>k. answering tooMany) (JsonBody False (Some ''gpt''))
           readyThree of
      None \<Rightarrow> False
    | Some (s, r, n) \<Rightarrow> r = Inr (Upstream tooMany) \<and> n = 3)"
  by code_simp

section \<open>Claims about account selection\<close>

text \<open>
  Claim C2. \<open>getNextAvailableAccount\<close> visits at most as many positions as the pool has
  accounts, from the start index the strategy determines and wrapping around, and
  returns the account at the first position whose account is available; available
  means fewer than three consecutive failures, no global reset strictly in the future
  and, when per-model tracking is on and a model is given, no reset of that model
  strictly in the future. It returns \<open>null\<close> exactly when the pool is empty or every
  account has three or more consecutive failures, and never returns an account with
  three or more consecutive failures. The theorem holds for every manager whose start
  index is not negative once the strategy state is initialised, and for a clock that is
  not negative.
\<close>

theorem C2_selectAccount_scan:
  assumes wf: "strategyInitialized s \<longrightarrow> 0 \<le> activeIndex s \<and> 0 \<le> roundRobinCursor s"
    and now: "0 \<le> now"
  shows "\<exists>s' res. getNextAvailableAccount pid s model now = (s', Inr res)
     \<and> (\<forall>k<length (accounts s).
           available_spec (config s) (objs s (accounts s ! scanPos s (scanStart pid s) k)) model now
           \<and> (\<forall>j<k. \<not> available_spec (config s)
                        (objs s (accounts s ! scanPos s (scanStart pid s) j)) model now)
           \<longrightarrow> res = Some (accounts s ! scanPos s (scanStart pid s) k))
     \<and> (res = None \<longleftrightarrow>
          accounts s = [] \<or> (\<forall>r\<in>set (accounts s). consecutiveFailures (objs s r) \<ge> 3))
     \<and> (\<forall>r. res = Some r \<longrightarrow> r \<in> set (accounts s) \<and> consecutiveFailures (objs s r) < 3)"
proof (cases "accounts s = []")
  case True
  then show ?thesis by (simp add: getNextAvailableAccount_def)
next
  case ne: False
  let ?st = "scanStart pid s"
  have av_eq: "availAt s model now ?st k =
      available_spec (config s) (objs s (accounts s ! scanPos s ?st k)) model now" for k
    by (simp add: availAt_def isAccountAvailable_spec [OF now])
  show ?thesis
  proof (cases "\<exists>k. k < length (accounts s) \<and> availAt s model now ?st k")
    case True
    then obtain k where k: "k < length (accounts s)" "availAt s model now ?st k"
      "\<forall>j<k. \<not> availAt s model now ?st j"
      using least_first [of "length (accounts s)" "availAt s model now ?st"] by blast
    let ?r = "accounts s ! scanPos s ?st k"
    have res: "getNextAvailableAccount pid s model now =
           (hit (initializeStrategyState pid s) now (int (scanPos s ?st k)), Inr (Some ?r))"
      by (rule getNext_primary [OF wf k])
    have mem: "?r \<in> set (accounts s)" using scanPos_lt [OF ne] by simp
    have cf: "consecutiveFailures (objs s ?r) < 3"
      using k(2) by (simp add: av_eq available_spec_def)
    have uniq: "k' = k" if "k' < length (accounts s)" "availAt s model now ?st k'"
      "\<forall>j<k'. \<not> availAt s model now ?st j" for k'
    proof (rule ccontr)
      assume "k' \<noteq> k"
      then consider "k' < k" | "k < k'" by linarith
      then show False
      proof cases
        case 1
        then show ?thesis using k(3) that(2) by blast
      next
        case 2
        then show ?thesis using that(3) k(2) by blast
      qed
    qed
    have c1: "\<forall>k'<length (accounts s).
           available_spec (config s) (objs s (accounts s ! scanPos s ?st k')) model now
           \<and> (\<forall>j<k'. \<not> available_spec (config s)
                        (objs s (accounts s ! scanPos s ?st j)) model now)
           \<longrightarrow> Some ?r = Some (accounts s ! scanPos s ?st k')"
    proof (intro allI impI)
      fix k' assume "k' < length (accounts s)"
        and "available_spec (config s) (objs s (accounts s ! scanPos s ?st k')) model now
           \<and> (\<forall>j<k'. \<not> available_spec (config s)
                        (objs s (accounts s ! scanPos s ?st j)) model now)"
      then have "k' = k" by (intro uniq) (simp_all add: av_eq)
      then show "Some ?r = Some (accounts s ! scanPos s ?st k')" by simp
    qed
    have c2: "(Some ?r = None) = (accounts s = [] \<or> (\<forall>r\<in>set (accounts s). consecutiveFailures (objs s r) \<ge> 3))"
    proof -
      have "\<exists>r\<in>set (accounts s). \<not> consecutiveFailures (objs s r) \<ge> 3"
        using mem cf by (intro bexI [of _ ?r]) simp_all
      then show ?thesis using ne by blast
    qed
    have c3: "\<forall>r. Some ?r = Some r \<longrightarrow> r \<in> set (accounts s) \<and> consecutiveFailures (objs s r) < 3"
      using mem cf by simp
    show ?thesis
      unfolding res
      apply (rule exI [of _ "hit (initializeStrategyState pid s) now (int (scanPos s ?st k))"])
      apply (rule exI [of _ "Some ?r"])
      apply (intro conjI)
         apply (rule refl)
        apply (rule c1)
       apply (rule c2)
      apply (rule c3)
      done
  next
    case False
    then have none: "\<forall>k<length (accounts s). \<not> availAt s model now ?st k" by blast
    let ?res = "leastLoop (objs s) (config s) model (accounts s) None None"
    have "snd (getNextAvailableAccount pid s model now) = Inr ?res"
      by (rule getNext_fallback [OF wf ne none])
    then obtain s' where res: "getNextAvailableAccount pid s model now = (s', Inr ?res)"
      by (metis prod.collapse)
    have c1: "\<forall>k'<length (accounts s).
           available_spec (config s) (objs s (accounts s ! scanPos s ?st k')) model now
           \<and> (\<forall>j<k'. \<not> available_spec (config s)
                        (objs s (accounts s ! scanPos s ?st j)) model now)
           \<longrightarrow> ?res = Some (accounts s ! scanPos s ?st k')"
      using none by (simp add: av_eq)
    have c2: "(?res = None) = (accounts s = [] \<or> (\<forall>r\<in>set (accounts s). consecutiveFailures (objs s r) \<ge> 3))"
      using ne by (simp add: leastLoop_None)
    have c3: "\<forall>r. ?res = Some r \<longrightarrow> r \<in> set (accounts s) \<and> consecutiveFailures (objs s r) < 3"
      using leastLoop_Some [of "objs s" "config s" model "accounts s" None None] by auto
    show ?thesis
      unfolding res
      apply (rule exI [of _ s'])
      apply (rule exI [of _ ?res])
      apply (intro conjI)
         apply (rule refl)
        apply (rule c1)
       apply (rule c2)
      apply (rule c3)
      done
  qed
qed

theorem C2_selectAccount_scan_witness:
  "\<exists>s'. getNextAvailableAccount 0 limitedPool None 1000 = (s', Inr (Some 1))"
proof -
  have wf: "strategyInitialized limitedPool \<longrightarrow>
              0 \<le> activeIndex limitedPool \<and> 0 \<le> roundRobinCursor limitedPool"
    by (simp add: limitedPool_simps)
  have now: "(0::int) \<le> 1000" by simp
  obtain s' res where r: "getNextAvailableAccount 0 limitedPool None 1000 = (s', Inr res)"
    and first: "\<forall>k<length (accounts limitedPool).
           available_spec (config limitedPool)
             (objs limitedPool (accounts limitedPool ! scanPos limitedPool (scanStart 0 limitedPool) k)) None 1000
           \<and> (\<forall>j<k. \<not> available_spec (config limitedPool)
                        (objs limitedPool (accounts limitedPool ! scanPos limitedPool (scanStart 0 limitedPool) j)) None 1000)
           \<longrightarrow> res = Some (accounts limitedPool ! scanPos limitedPool (scanStart 0 limitedPool) k)"
    using C2_selectAccount_scan [OF wf now, of 0 None] by blast
  have st: "scanStart 0 limitedPool = 0"
    by (rule scanStart_fresh_sticky) (simp_all add: limitedPool_simps cfgOf_def DEFAULT_MULTI_ACCOUNT_CONFIG_def)
  have "res = Some 1"
    using first [rule_format, of 1]
    by (simp add: st limitedPool_simps scanPos_def available_spec_def strictlyFuture_def
          modelGiven_def plainAccount_def newAccount_def)
  then show ?thesis using r by blast
qed

text \<open>
  Claim C3. When no account is available while the account at position \<open>i\<close> has fewer
  than three consecutive failures, and its combined reset time (the global reset or 0;
  when per-model tracking is on and a model is given, the larger of that and the reset
  of the model or 0) is the least among the accounts with fewer than three consecutive
  failures, strictly less than that of every such account before it in the list, then
  \<open>getNextAvailableAccount\<close> returns that account: the earliest reset wins and ties go
  to the account enumerated first. The theorem holds for every manager whose start
  index is not negative once the strategy state is initialised.
\<close>

theorem C3_fallback_earliest_reset:
  assumes wf: "strategyInitialized s \<longrightarrow> 0 \<le> activeIndex s \<and> 0 \<le> roundRobinCursor s"
    and none: "\<forall>r\<in>set (accounts s). \<not> isAccountAvailable (config s) (objs s r) model now"
    and i: "i < length (accounts s)"
    and cf: "consecutiveFailures (objs s (accounts s ! i)) < 3"
    and least: "\<forall>j<length (accounts s). consecutiveFailures (objs s (accounts s ! j)) < 3 \<longrightarrow>
        combinedResetTime (config s) model (objs s (accounts s ! i))
          \<le> combinedResetTime (config s) model (objs s (accounts s ! j))"
    and first: "\<forall>j<i. consecutiveFailures (objs s (accounts s ! j)) < 3 \<longrightarrow>
        combinedResetTime (config s) model (objs s (accounts s ! i))
          < combinedResetTime (config s) model (objs s (accounts s ! j))"
  shows "snd (getNextAvailableAccount pid s model now) = Inr (Some (accounts s ! i))"
proof -
  have ne: "accounts s \<noteq> []" using i by auto
  have "\<forall>k<length (accounts s). \<not> availAt s model now (scanStart pid s) k"
    using none scanPos_lt [OF ne] by (simp add: availAt_def)
  then have "snd (getNextAvailableAccount pid s model now) =
           Inr (leastLoop (objs s) (config s) model (accounts s) None None)"
    by (rule getNext_fallback [OF wf ne])
  moreover have "leastLoop (objs s) (config s) model (accounts s) None None = Some (accounts s ! i)"
    using i cf least first by (intro leastLoop_first_min) (simp_all add: resetTimeOf_spec)
  ultimately show ?thesis by simp
qed

theorem C3_fallback_earliest_reset_witness:
  "combinedResetTime (config perModelPool) (Some ''gpt'') (objs perModelPool 0) = 5000
   \<and> combinedResetTime (config perModelPool) (Some ''gpt'') (objs perModelPool 1) = 4000
   \<and> snd (getNextAvailableAccount 0 perModelPool (Some ''gpt'') 1000) = Inr (Some 1)
   \<and> snd (getNextAvailableAccount 0 exhaustedPool None 1000) = Inr (Some 1)"
proof -
  let ?m = "Some ''gpt''"
  have c0: "combinedResetTime (config perModelPool) ?m (objs perModelPool 0) = 5000"
    by (simp add: combinedResetTime_def modelGiven_def perModelPool_simps cfg_simps
          plainAccount_def newAccount_def)
  have c1: "combinedResetTime (config perModelPool) ?m (objs perModelPool (Suc 0)) = 4000"
    by (simp add: combinedResetTime_def modelGiven_def perModelPool_simps cfg_simps
          plainAccount_def newAccount_def)
  have wf: "strategyInitialized perModelPool \<longrightarrow>
              0 \<le> activeIndex perModelPool \<and> 0 \<le> roundRobinCursor perModelPool"
    by (simp add: perModelPool_simps)
  have none: "\<forall>r\<in>set (accounts perModelPool).
      \<not> isAccountAvailable (config perModelPool) (objs perModelPool r) ?m 1000"
    by (simp add: perModelPool_simps cfg_simps isAccountAvailable_def and_gt_def truthy_str_def
          plainAccount_def newAccount_def)
  have i: "1 < length (accounts perModelPool)" by (simp add: perModelPool_simps)
  have cf: "consecutiveFailures (objs perModelPool (accounts perModelPool ! 1)) < 3"
    by (simp add: perModelPool_simps plainAccount_def newAccount_def)
  have least: "\<forall>j<length (accounts perModelPool).
      consecutiveFailures (objs perModelPool (accounts perModelPool ! j)) < 3 \<longrightarrow>
        combinedResetTime (config perModelPool) ?m (objs perModelPool (accounts perModelPool ! 1))
          \<le> combinedResetTime (config perModelPool) ?m (objs perModelPool (accounts perModelPool ! j))"
    using c0 c1 by (simp add: perModelPool_simps(1) All_less_Suc)
  have first: "\<forall>j<1. consecutiveFailures (objs perModelPool (accounts perModelPool ! j)) < 3 \<longrightarrow>
        combinedResetTime (config perModelPool) ?m (objs perModelPool (accounts perModelPool ! 1))
          < combinedResetTime (config perModelPool) ?m (objs perModelPool (accounts perModelPool ! j))"
    using c0 c1 by (simp add: perModelPool_simps(1))
  have a: "snd (getNextAvailableAccount 0 perModelPool ?m 1000) = Inr (Some 1)"
    using C3_fallback_earliest_reset [OF wf none i cf least first, of 0]
    by (simp add: perModelPool_simps(1))
  have wf2: "strategyInitialized exhaustedPool \<longrightarrow>
              0 \<le> activeIndex exhaustedPool \<and> 0 \<le> roundRobinCursor exhaustedPool"
    by (simp add: exhaustedPool_simps)
  have none2: "\<forall>r\<in>set (accounts exhaustedPool).
      \<not> isAccountAvailable (config exhaustedPool) (objs exhaustedPool r) None 1000"
    by (simp add: exhaustedPool_simps isAccountAvailable_def and_gt_def plainAccount_def
          newAccount_def)
  have i2: "1 < length (accounts exhaustedPool)" by (simp add: exhaustedPool_simps)
  have cf2: "consecutiveFailures (objs exhaustedPool (accounts exhaustedPool ! 1)) < 3"
    by (simp add: exhaustedPool_simps plainAccount_def newAccount_def)
  have least2: "\<forall>j<length (accounts exhaustedPool).
      consecutiveFailures (objs exhaustedPool (accounts exhaustedPool ! j)) < 3 \<longrightarrow>
        combinedResetTime (config exhaustedPool) None (objs exhaustedPool (accounts exhaustedPool ! 1))
          \<le> combinedResetTime (config exhaustedPool) None (objs exhaustedPool (accounts exhaustedPool ! j))"
    by (simp add: exhaustedPool_simps All_less_Suc combinedResetTime_def modelGiven_def
          plainAccount_def newAccount_def)
  have first2: "\<forall>j<1. consecutiveFailures (objs exhaustedPool (accounts exhaustedPool ! j)) < 3 \<longrightarrow>
        combinedResetTime (config exhaustedPool) None (objs exhaustedPool (accounts exhaustedPool ! 1))
          < combinedResetTime (config exhaustedPool) None (objs exhaustedPool (accounts exhaustedPool ! j))"
    by (simp add: exhaustedPool_simps combinedResetTime_def modelGiven_def
          plainAccount_def newAccount_def)
  have b: "snd (getNextAvailableAccount 0 exhaustedPool None 1000) = Inr (Some 1)"
    using C3_fallback_earliest_reset [OF wf2 none2 i2 cf2 least2 first2, of 0]
    by (simp add: exhaustedPool_simps)
  show ?thesis using c0 c1 a b by simp
qed

section \<open>Claims about the account store\<close>







text \<open>
  Claim C5, as amended. \<open>loadFromDisk\<close> has no exception branch: every statement of
  the source that can throw stands in its \<open>try\<close> block. On a parse failure it resets
  the pool to the empty pool with both indices 0. On a missing file, or a snapshot that
  is not of version 1 or has no array of accounts, it leaves the manager as it is; so
  a freshly constructed manager keeps its empty pool in each of these cases.
\<close>

theorem C5_loadFromDisk_degrades:
  "(parseFailure disk \<longrightarrow>
      accounts (loadFromDisk s disk) = [] \<and> activeIndex (loadFromDisk s disk) = 0
      \<and> roundRobinCursor (loadFromDisk s disk) = 0
      \<and> \<not> strategyInitialized (loadFromDisk s disk))
   \<and> (missingOrMismatch disk \<longrightarrow> loadFromDisk s disk = s)
   \<and> (parseFailure disk \<or> missingOrMismatch disk \<longrightarrow>
        loadFromDisk (newAccountManager cfg) disk = newAccountManager cfg
        \<and> accounts (loadFromDisk (newAccountManager cfg) disk) = []
        \<and> activeIndex (loadFromDisk (newAccountManager cfg) disk) = 0)"
  by (cases disk)
     (auto simp: parseFailure_def missingOrMismatch_def loadFromDisk_def resetPool_def
        newAccountManager_def split: option.splits)

text \<open>The claim as first stated fails: a manager that holds two accounts still
  holds them after \<open>loadFromDisk\<close> finds no file, or a snapshot of another version.\<close>

theorem C5_loadFromDisk_keeps_pool_counterexample:
  "accounts (loadFromDisk limitedPool NoFile) = [0, 1]
   \<and> accounts (loadFromDisk limitedPool (JsonValue False (Some []) None)) = [0, 1]"
  by (simp add: loadFromDisk_def limitedPool_simps)

theorem C5_loadFromDisk_degrades_witness:
  "accounts (loadFromDisk limitedPool Unparsable) = []
   \<and> loadFromDisk limitedPool NoFile = limitedPool
   \<and> accounts (loadFromDisk (newAccountManager (cfgOf Sticky)) (JsonValue False None None)) = []"
  using C5_loadFromDisk_degrades [of Unparsable limitedPool "cfgOf Sticky"]
        C5_loadFromDisk_degrades [of NoFile limitedPool "cfgOf Sticky"]
        C5_loadFromDisk_degrades [of "JsonValue False None None" limitedPool "cfgOf Sticky"]
  by (simp add: parseFailure_def missingOrMismatch_def newAccountManager_def)





section \<open>Claims about the usage snapshot tracker\<close>

text \<open>
  Claim C8, as amended. When the snapshots file parses to an array, \<open>saveToDisk\<close>
  writes, for every key, the merge of the in-memory and the on-disk entry (of two
  entries the one with the strictly newer \<open>updatedAt\<close>, the disk entry otherwise; an
  entry only on disk or only in memory as it is), unless that entry is older than the
  retention window of seven days, in which case the key is not written; no written
  entry is older than the window. When the file is missing or does not parse to an
  array, the in-memory map is written as it is, with no merge and no pruning.
\<close>

theorem C8_saveToDisk_merge:
  assumes d: "distinct (map fst snapshots)"
  shows
   "(\<forall>diskData. disk = SnapEntries diskData \<longrightarrow>
       (\<forall>k. map_of (CodexStatusManager_saveToDisk snapshots disk now) k
              = keepFresh now (mergeEntry (map_of snapshots k) (map_of (new_Map diskData) k)))
       \<and> distinct (map fst (CodexStatusManager_saveToDisk snapshots disk now))
       \<and> (\<forall>(k, v)\<in>set (CodexStatusManager_saveToDisk snapshots disk now).
             now - updatedAt v \<le> SNAPSHOT_RETENTION_MS))
    \<and> ((\<forall>diskData. disk \<noteq> SnapEntries diskData) \<longrightarrow>
         CodexStatusManager_saveToDisk snapshots disk now = snapshots)"
proof -
  have c1: "\<forall>diskData. disk = SnapEntries diskData \<longrightarrow>
       (\<forall>k. map_of (CodexStatusManager_saveToDisk snapshots disk now) k
              = keepFresh now (mergeEntry (map_of snapshots k) (map_of (new_Map diskData) k)))
       \<and> distinct (map fst (CodexStatusManager_saveToDisk snapshots disk now))
       \<and> (\<forall>(k, v)\<in>set (CodexStatusManager_saveToDisk snapshots disk now).
             now - updatedAt v \<le> SNAPSHOT_RETENTION_MS)"
  proof (intro allI impI)
    fix diskData assume f: "disk = SnapEntries diskData"
    let ?merged = "mergeMemory snapshots (new_Map diskData)"
    have dm: "distinct (map fst ?merged)"
      by (rule distinct_mergeMemory [OF distinct_new_Map])
    have r: "CodexStatusManager_saveToDisk snapshots disk now = pruneOld now ?merged"
      using f by (simp add: CodexStatusManager_saveToDisk_def)
    have a1: "\<forall>k. map_of (pruneOld now ?merged) k
              = keepFresh now (mergeEntry (map_of snapshots k) (map_of (new_Map diskData) k))"
      by (simp add: map_of_pruneOld [OF dm] map_of_mergeMemory [OF d])
    have a2: "distinct (map fst (pruneOld now ?merged))"
      using dm by (simp add: pruneOld_def distinct_map_filter)
    have a3: "\<forall>(k, v)\<in>set (pruneOld now ?merged). now - updatedAt v \<le> SNAPSHOT_RETENTION_MS"
      by (auto simp: pruneOld_def)
    show "(\<forall>k. map_of (CodexStatusManager_saveToDisk snapshots disk now) k
              = keepFresh now (mergeEntry (map_of snapshots k) (map_of (new_Map diskData) k)))
       \<and> distinct (map fst (CodexStatusManager_saveToDisk snapshots disk now))
       \<and> (\<forall>(k, v)\<in>set (CodexStatusManager_saveToDisk snapshots disk now).
             now - updatedAt v \<le> SNAPSHOT_RETENTION_MS)"
      unfolding r using a1 a2 a3 by (intro conjI)
  qed
  have c2: "(\<forall>diskData. disk \<noteq> SnapEntries diskData) \<longrightarrow>
         CodexStatusManager_saveToDisk snapshots disk now = snapshots"
    by (cases disk) (simp_all add: CodexStatusManager_saveToDisk_def)
  show ?thesis using c1 c2 by (intro conjI)
qed

text \<open>The claim as first stated fails: with no snapshots file, an in-memory entry older
  than the retention window is written.\<close>

theorem C8_no_pruning_without_file_counterexample:
  "CodexStatusManager_saveToDisk [(''k'', staleSnapshot)] SnapMissing (SNAPSHOT_RETENTION_MS + 1)
     = [(''k'', staleSnapshot)]
   \<and> (SNAPSHOT_RETENTION_MS + 1) - updatedAt staleSnapshot > SNAPSHOT_RETENTION_MS"
  by (simp add: CodexStatusManager_saveToDisk_def staleSnapshot_def)

theorem C8_saveToDisk_merge_witness:
  "(let written = CodexStatusManager_saveToDisk
        [(''a'', snapAt 2000), (''b'', snapAt 100)]
        (SnapEntries [(''a'', snapAt 1000), (''c'', snapAt 0), (''d'', snapAt 3000)])
        (SNAPSHOT_RETENTION_MS + 50)
    in map_of written ''a'' = Some (snapAt 2000)
       \<and> map_of written ''b'' = Some (snapAt 100)
       \<and> map_of written ''c'' = None
       \<and> map_of written ''d'' = Some (snapAt 3000))
   \<and> CodexStatusManager_saveToDisk [(''a'', snapAt 2000)] SnapUnparsable 0 = [(''a'', snapAt 2000)]"
proof -
  let ?mem = "[(''a'', snapAt 2000), (''b'', snapAt 100)]"
  let ?disk = "[(''a'', snapAt 1000), (''c'', snapAt 0), (''d'', snapAt 3000)]"
  have d: "distinct (map fst ?mem)" by simp
  have d1: "distinct (map fst [(''a'', snapAt 2000)])" by simp
  have n: "\<forall>diskData. SnapUnparsable \<noteq> SnapEntries diskData" by simp
  have m: "\<forall>k. map_of (CodexStatusManager_saveToDisk ?mem (SnapEntries ?disk)
                          (SNAPSHOT_RETENTION_MS + 50)) k
              = keepFresh (SNAPSHOT_RETENTION_MS + 50)
                  (mergeEntry (map_of ?mem k) (map_of (new_Map ?disk) k))"
    using C8_saveToDisk_merge [OF d, of "SnapEntries ?disk" "SNAPSHOT_RETENTION_MS + 50"]
    by blast
  have u: "CodexStatusManager_saveToDisk [(''a'', snapAt 2000)] SnapUnparsable 0
           = [(''a'', snapAt 2000)]"
    using C8_saveToDisk_merge [OF d1, of SnapUnparsable 0] n by blast
  have nm: "new_Map ?disk = ?disk" by (simp add: new_Map_def)
  let ?w = "CodexStatusManager_saveToDisk ?mem (SnapEntries ?disk) (SNAPSHOT_RETENTION_MS + 50)"
  have a: "map_of ?w ''a'' = Some (snapAt 2000)"
    by (simp only: m [rule_format] nm)
       (simp add: keepFresh_def mergeEntry_def snapAt_def staleSnapshot_def
          SNAPSHOT_RETENTION_MS_def)
  have b: "map_of ?w ''b'' = Some (snapAt 100)"
    by (simp only: m [rule_format] nm)
       (simp add: keepFresh_def mergeEntry_def snapAt_def staleSnapshot_def
          SNAPSHOT_RETENTION_MS_def)
  have c: "map_of ?w ''c'' = None"
    by (simp only: m [rule_format] nm)
       (simp add: keepFresh_def mergeEntry_def snapAt_def staleSnapshot_def
          SNAPSHOT_RETENTION_MS_def)
  have e: "map_of ?w ''d'' = Some (snapAt 3000)"
    by (simp only: m [rule_format] nm)
       (simp add: keepFresh_def mergeEntry_def snapAt_def staleSnapshot_def
          SNAPSHOT_RETENTION_MS_def)
  show ?thesis
    unfolding Let_def using a b c e u by (intro conjI)
qed

section \<open>Claims about the request orchestrator\<close>

text \<open>
  Claim C9. Whenever an invocation of \<open>executeRequest\<close> recurses, the account it
  recurses with has, in the manager after the reselection, an \<open>index\<close> other than that
  of the current account. When the reselection gives \<open>null\<close> or an account with the
  same \<open>index\<close>: after a failed token refresh the invocation returns the synthetic 401
  response; after a 429 with retry budget left, and after a first 401, it returns the
  upstream response.
\<close>

theorem C9_failover_requires_other_account:
  "(\<forall>s' nxt rc n.
       executeRequest_step dec pid io body s account retryCount = (s', Recurse nxt rc, n)
       \<longrightarrow> index (objs s' nxt) \<noteq> index (objs s' account))
   \<and> (\<forall>s1 calls s2 nxt.
       ensureValidToken dec (refreshReply io) (writeReply io) s account (clockToken io) = (s1, False, calls)
       \<and> getNextAvailableAccount pid s1 None (clockSelect io) = (s2, Inr nxt)
       \<and> sameOrNone s2 nxt account
       \<longrightarrow> executeRequest_step dec pid io body s account retryCount
             = (s2, Return (Synthetic 401 ''All accounts failed token refresh''), 0))
   \<and> (\<forall>s1 calls response s2 nxt.
       ensureValidToken dec (refreshReply io) (writeReply io) s account (clockToken io) = (s1, True, calls)
       \<and> body \<noteq> InvalidJson \<and> truthy_str (resolveAccountId dec (objs s1 account))
       \<and> upstream io = Fetched response \<and> status response = 429
       \<and> int retryCount < int (length (accounts s1)) - 1
       \<and> getNextAvailableAccount pid
            (markRateLimited s1 account (retryAfterMsOf io response)
               (extractModelFromBody body) (clockMark io))
            (extractModelFromBody body) (clockSelect io) = (s2, Inr nxt)
       \<and> sameOrNone s2 nxt account
       \<longrightarrow> executeRequest_step dec pid io body s account retryCount
             = (s2, Return (Upstream response), 1))
   \<and> (\<forall>s1 calls response s2 nxt.
       ensureValidToken dec (refreshReply io) (writeReply io) s account (clockToken io) = (s1, True, calls)
       \<and> body \<noteq> InvalidJson \<and> truthy_str (resolveAccountId dec (objs s1 account))
       \<and> upstream io = Fetched response \<and> status response = 401 \<and> retryCount < 1
       \<and> getNextAvailableAccount pid (markRefreshFailed s1 account ''401 Unauthorized'')
            (extractModelFromBody body) (clockSelect io) = (s2, Inr nxt)
       \<and> sameOrNone s2 nxt account
       \<longrightarrow> executeRequest_step dec pid io body s account retryCount
             = (s2, Return (Upstream response), 1))"
proof (intro conjI allI impI)
  fix s' nxt rc n
  assume "executeRequest_step dec pid io body s account retryCount = (s', Recurse nxt rc, n)"
  then show "index (objs s' nxt) \<noteq> index (objs s' account)"
    using step_Recurse by blast
next
  fix s1 calls s2 nxt
  assume "ensureValidToken dec (refreshReply io) (writeReply io) s account (clockToken io) = (s1, False, calls)
       \<and> getNextAvailableAccount pid s1 None (clockSelect io) = (s2, Inr nxt)
       \<and> sameOrNone s2 nxt account"
  then show "executeRequest_step dec pid io body s account retryCount
             = (s2, Return (Synthetic 401 ''All accounts failed token refresh''), 0)"
    by (simp add: executeRequest_step_def differs_iff UNAUTHORIZED_def)
next
  fix s1 calls response s2 nxt
  assume a: "ensureValidToken dec (refreshReply io) (writeReply io) s account (clockToken io) = (s1, True, calls)
       \<and> body \<noteq> InvalidJson \<and> truthy_str (resolveAccountId dec (objs s1 account))
       \<and> upstream io = Fetched response \<and> status response = 429
       \<and> int retryCount < int (length (accounts s1)) - 1
       \<and> getNextAvailableAccount pid
            (markRateLimited s1 account (retryAfterMsOf io response)
               (extractModelFromBody body) (clockMark io))
            (extractModelFromBody body) (clockSelect io) = (s2, Inr nxt)
       \<and> sameOrNone s2 nxt account"
  have len: "length (accounts (markRateLimited s1 account (retryAfterMsOf io response)
               (extractModelFromBody body) (clockMark io))) = length (accounts s1)"
    by (simp add: markRateLimited_def Let_def)
  have "onResponse pid io s1 account retryCount (extractModelFromBody body) response
          = (s2, Return (Upstream response))"
    using a len
    by (simp add: onResponse_def Let_def differs_iff TOO_MANY_REQUESTS_def finish_error)
  then show "executeRequest_step dec pid io body s account retryCount
             = (s2, Return (Upstream response), 1)"
    using a by (simp add: executeRequest_step_def Let_def)
next
  fix s1 calls response s2 nxt
  assume a: "ensureValidToken dec (refreshReply io) (writeReply io) s account (clockToken io) = (s1, True, calls)
       \<and> body \<noteq> InvalidJson \<and> truthy_str (resolveAccountId dec (objs s1 account))
       \<and> upstream io = Fetched response \<and> status response = 401 \<and> retryCount < 1
       \<and> getNextAvailableAccount pid (markRefreshFailed s1 account ''401 Unauthorized'')
            (extractModelFromBody body) (clockSelect io) = (s2, Inr nxt)
       \<and> sameOrNone s2 nxt account"
  have "onResponse pid io s1 account retryCount (extractModelFromBody body) response
          = (s2, Return (Upstream response))"
    using a
    by (simp add: onResponse_def Let_def differs_iff TOO_MANY_REQUESTS_def UNAUTHORIZED_def
          finish_error)
  then show "executeRequest_step dec pid io body s account retryCount
             = (s2, Return (Upstream response), 1)"
    using a by (simp add: executeRequest_step_def Let_def)
qed

theorem C9_failover_requires_other_account_witness:
  "snd (executeRequest_step noClaims 0 (answering tooMany) (JsonBody False (Some ''gpt''))
          readyPool 0 0) = (Recurse 1 1, 1)
   \<and> index (objs (fst (executeRequest_step noClaims 0 (answering tooMany)
                          (JsonBody False (Some ''gpt'')) readyPool 0 0)) 1)
      \<noteq> index (objs (fst (executeRequest_step noClaims 0 (answering tooMany)
                            (JsonBody False (Some ''gpt'')) readyPool 0 0)) 0)
   \<and> snd (executeRequest_step noClaims 0 (answering tooMany) (JsonBody False (Some ''gpt''))
            lonelyPool 0 0) = (Return (Upstream tooMany), 1)"
proof -
  let ?io = "answering tooMany" and ?body = "JsonBody False (Some ''gpt'')"
  let ?st = "executeRequest_step noClaims 0 ?io ?body readyPool 0 0"
  note C9 = C9_failover_requires_other_account
  have ev: "snd ?st = (Recurse 1 1, 1)" by code_simp
  then have st: "?st = (fst ?st, Recurse 1 1, 1)" by (metis prod.collapse)
  have d: "index (objs (fst ?st) 1) \<noteq> index (objs (fst ?st) 0)"
    using C9 [of noClaims 0 ?io ?body readyPool 0 0, THEN conjunct1, rule_format, OF st] .
  let ?m = "markRateLimited lonelyPool 0 (retryAfterMsOf ?io tooMany)
              (extractModelFromBody ?body) (clockMark ?io)"
  obtain s2 res where g:
    "getNextAvailableAccount 0 ?m (extractModelFromBody ?body) (clockSelect ?io) = (s2, res)"
    by (cases "getNextAvailableAccount 0 ?m (extractModelFromBody ?body) (clockSelect ?io)")
  have "snd (getNextAvailableAccount 0 ?m (extractModelFromBody ?body) (clockSelect ?io))
          = Inr (Some 0)"
    by code_simp
  then have res: "res = Inr (Some 0)" using g by simp
  have tok: "ensureValidToken noClaims (refreshReply ?io) (writeReply ?io) lonelyPool 0 (clockToken ?io)
               = (lonelyPool, True, [])"
    by (simp add: ensureValidToken_def Let_def lonelyPool_simps plainAccount_def newAccount_def
          truthy_num_def)
  have h: "ensureValidToken noClaims (refreshReply ?io) (writeReply ?io) lonelyPool 0 (clockToken ?io)
             = (lonelyPool, True, [])
       \<and> ?body \<noteq> InvalidJson \<and> truthy_str (resolveAccountId noClaims (objs lonelyPool 0))
       \<and> upstream ?io = Fetched tooMany \<and> status tooMany = 429
       \<and> int 0 < int (length (accounts lonelyPool)) - 1
       \<and> getNextAvailableAccount 0 ?m (extractModelFromBody ?body) (clockSelect ?io)
            = (s2, Inr (Some 0))
       \<and> sameOrNone s2 (Some 0) 0"
    using tok g res
    by (simp add: lonelyPool_simps resolveAccountId_def truthy_str_def plainAccount_def
          newAccount_def answering_def tooMany_def sameOrNone_def)
  have "executeRequest_step noClaims 0 ?io ?body lonelyPool 0 0
          = (s2, Return (Upstream tooMany), 1)"
    using C9 [of noClaims 0 ?io ?body lonelyPool 0 0, THEN conjunct2, THEN conjunct2,
              THEN conjunct1, rule_format, OF h] .
  then show ?thesis using ev d by simp
qed

text \<open>
  Claim C1. The claim says that the recursion of \<open>executeRequest\<close> always ends. The
  branches that follow an upstream response are bounded as it says: a 429 recurses only
  while \<open>retryCount < poolSize - 1\<close>, a 401 only while \<open>retryCount < 1\<close>, each with
  \<open>retryCount + 1\<close>, so a request that returns has issued at most
  \<open>max 1 (retryBudget s + 1 - retryCount)\<close> transport calls (lemma
  \<open>transport_calls_bounded\<close>; three for a pool of three, and exactly three when
  every account of a healthy pool of three is answered with 429, lemma
  \<open>always_429_three_accounts\<close>). The branch that follows a
  failed token check recurses with the same \<open>retryCount\<close>, and \<open>ensureValidToken\<close>
  returns false without counting a failure when the account is marked as refreshing
  and holds no access token. The theorem runs the plugin's \<open>fetch\<close> on a round-robin
  pool of two such accounts: whatever the fuel, the request does not return.
\<close>

theorem C1_refresh_failure_recursion_unbounded:
  "\<forall>fuel. pluginFetch fuel noClaims 0 1000 (\<lambda>k. idle) NoBody stuckPool = None"
proof
  fix fuel
  obtain s1 where g: "getNextAvailableAccount 0 stuckPool (extractModelFromBody NoBody) 1000
                        = (s1, Inr (Some 0))" and pp: "pingPong s1 0"
    using stuckPool_first by blast
  have "executeRequest fuel noClaims 0 (\<lambda>k. idle) 0 NoBody s1 0 0 = None"
    by (rule pingPong_diverges [OF pp]) (simp add: idle_def)
  then show "pluginFetch fuel noClaims 0 1000 (\<lambda>k. idle) NoBody stuckPool = None"
    using g by (simp add: pluginFetch_def)
qed

end
